theory Spec2Isabelle
  imports Complex_Main
begin

section \<open>Python values\<close>

text \<open>
  The library in \<^verbatim>\<open>core.py\<close> moves dynamically typed values around:
  \<^verbatim>\<open>raw_data\<close> is a \<^verbatim>\<open>dict[str, Any]\<close>, and the dataclass fields are
  annotated but never checked, so a field holds whatever was stored in it. The values
  are the JSON-like ones: \<^verbatim>\<open>None\<close>, booleans, integers, floats, strings, lists
  and dictionaries with string keys.

  A dictionary is an association list in insertion order (the order in which
  \<^verbatim>\<open>items()\<close> enumerates it); the keys of a dictionary are pairwise distinct.
  A float is modelled by the real number it denotes: the code only compares floats and
  converts integers to floats, it does no float arithmetic. The conversion of an integer
  rounds as Python does; NaN and the infinities are outside the model.
\<close>

datatype pyval =
    PNone
  | PBool bool
  | PInt int
  | PFloat real
  | PStr string
  | PList "pyval list"
  | PDict "(string \<times> pyval) list"

text \<open>The exceptions the modelled code can raise; all come from Python's built-ins.\<close>

datatype error = AttributeError | TypeError | ValueError | OverflowError

text \<open>
  \<^verbatim>\<open>x >= threshold\<close> for a float \<^verbatim>\<open>threshold\<close>: numbers (and booleans, which are
  integers in Python) compare by value, every other operand raises \<^verbatim>\<open>TypeError\<close>.
\<close>

fun py_ge :: "pyval \<Rightarrow> real \<Rightarrow> error + bool" where
  "py_ge (PFloat x) t = Inr (x \<ge> t)"
| "py_ge (PInt i) t = Inr (real_of_int i \<ge> t)"
| "py_ge (PBool b) t = Inr ((if b then 1 else 0) \<ge> t)"
| "py_ge PNone t = Inl TypeError"
| "py_ge (PStr s) t = Inl TypeError"
| "py_ge (PList l) t = Inl TypeError"
| "py_ge (PDict d) t = Inl TypeError"

text \<open>
  \<^verbatim>\<open>d.get(key, default)\<close> on a dictionary. The lookup \<^verbatim>\<open>d[key]\<close> behind the test
  \<^verbatim>\<open>key in d\<close> is \<open>map_of d key\<close>, which is \<open>None\<close> when the key is absent.
\<close>

definition dict_get :: "(string \<times> pyval) list \<Rightarrow> string \<Rightarrow> pyval \<Rightarrow> pyval" where
  "dict_get d k dflt = (case map_of d k of None \<Rightarrow> dflt | Some v \<Rightarrow> v)"

section \<open>The report model\<close>

text \<open>
  \<^verbatim>\<open>ReturnCode\<close> is imported from \<^verbatim>\<open>duplicate_code_detection.py\<close>.
  Modelled from the spec: the enumeration \<^verbatim>\<open>ReturnCode\<close>, whose declaration is in
  that module; it has \<^verbatim>\<open>SUCCESS\<close> with value 0 and a threshold-exceeded code whose
  value is greater than 0 and whose magnitude may carry diagnostic information (the
  argument \<open>n\<close> stands for the value \<open>n + 1\<close>).
\<close>

datatype ReturnCode = SUCCESS | THRESHOLD_EXCEEDED nat

fun ReturnCode_value :: "ReturnCode \<Rightarrow> int" where
  "ReturnCode_value SUCCESS = 0"
| "ReturnCode_value (THRESHOLD_EXCEEDED n) = int n + 1"

text \<open>
  The three dataclasses. \<^verbatim>\<open>similarity_percentage\<close> is annotated \<^verbatim>\<open>float\<close> and the
  line counts \<^verbatim>\<open>int | None\<close>; \<^verbatim>\<open>_process_result\<close> stores in them values taken
  from \<^verbatim>\<open>raw_data\<close> as they are, so the fields are Python values.
\<close>

record FileSimilarity =
  source_file :: string
  target_file :: string
  similarity_percentage :: pyval
  source_loc :: pyval
  target_loc :: pyval

record SimilarityReport =
  file_path :: string
  similarities :: "FileSimilarity list"
  loc_count :: pyval

record DetectionResult =
  return_code :: ReturnCode
  reports :: "SimilarityReport list"
  raw_data :: "(string \<times> pyval) list"

subsection \<open>Queries\<close>

text \<open>\<^verbatim>\<open>SimilarityReport.add_similarity\<close>: append to the report's list.\<close>

definition add_similarity :: "SimilarityReport \<Rightarrow> FileSimilarity \<Rightarrow> SimilarityReport" where
  "add_similarity self similarity = self\<lparr>similarities := similarities self @ [similarity]\<rparr>"

text \<open>
  \<^verbatim>\<open>[s for s in self.similarities if s.similarity_percentage >= threshold]\<close>:
  the comprehension evaluates the test on each element in turn, and an exception of a
  test ends it.
\<close>

fun high_comprehension :: "FileSimilarity list \<Rightarrow> real \<Rightarrow> error + FileSimilarity list" where
  "high_comprehension [] threshold = Inr []"
| "high_comprehension (s # ss) threshold =
     (case py_ge (similarity_percentage s) threshold of
        Inl e \<Rightarrow> Inl e
      | Inr keep \<Rightarrow>
          (case high_comprehension ss threshold of
             Inl e \<Rightarrow> Inl e
           | Inr rest \<Rightarrow> Inr (if keep then s # rest else rest)))"

definition get_high_similarities :: "SimilarityReport \<Rightarrow> real \<Rightarrow> error + FileSimilarity list" where
  "get_high_similarities self threshold = high_comprehension (similarities self) threshold"

definition is_success :: "DetectionResult \<Rightarrow> bool" where
  "is_success self = (return_code self = SUCCESS)"

definition has_duplications :: "DetectionResult \<Rightarrow> bool" where
  "has_duplications self = (length (reports self) > 0)"

text \<open>
  \<^verbatim>\<open>get_critical_duplications\<close>: the inner loop appends each similarity of one report
  to \<^verbatim>\<open>critical\<close>, the outer loop runs over the reports.
\<close>

fun append_each :: "FileSimilarity list \<Rightarrow> FileSimilarity list \<Rightarrow> FileSimilarity list" where
  "append_each critical [] = critical"
| "append_each critical (similarity # rest) = append_each (critical @ [similarity]) rest"

fun critical_loop ::
  "real \<Rightarrow> SimilarityReport list \<Rightarrow> FileSimilarity list \<Rightarrow> error + FileSimilarity list" where
  "critical_loop threshold [] critical = Inr critical"
| "critical_loop threshold (report # rest) critical =
     (case get_high_similarities report threshold of
        Inl e \<Rightarrow> Inl e
      | Inr high \<Rightarrow> critical_loop threshold rest (append_each critical high))"

definition get_critical_duplications :: "DetectionResult \<Rightarrow> real \<Rightarrow> error + FileSimilarity list" where
  "get_critical_duplications self threshold = critical_loop threshold (reports self) []"

subsection \<open>Serialisation\<close>

definition FileSimilarity_to_dict :: "FileSimilarity \<Rightarrow> pyval" where
  "FileSimilarity_to_dict self = PDict
     [(''source_file'', PStr (source_file self)),
      (''target_file'', PStr (target_file self)),
      (''similarity_percentage'', similarity_percentage self),
      (''source_loc'', source_loc self),
      (''target_loc'', target_loc self)]"

definition SimilarityReport_to_dict :: "SimilarityReport \<Rightarrow> pyval" where
  "SimilarityReport_to_dict self = PDict
     [(''file_path'', PStr (file_path self)),
      (''loc_count'', loc_count self),
      (''similarities'', PList (map FileSimilarity_to_dict (similarities self)))]"

definition DetectionResult_to_dict :: "DetectionResult \<Rightarrow> pyval" where
  "DetectionResult_to_dict self = PDict
     [(''return_code'', PInt (ReturnCode_value (return_code self))),
      (''success'', PBool (is_success self)),
      (''has_duplications'', PBool (has_duplications self)),
      (''reports'', PList (map SimilarityReport_to_dict (reports self))),
      (''raw_data'', PDict (raw_data self))]"

section \<open>Building the result\<close>

text \<open>
  \<^verbatim>\<open>float(i)\<close> for an integer: the nearest double, a tie going to the double with the
  even significand, and \<^verbatim>\<open>OverflowError\<close> when that would be \<open>2^1024\<close> or more. An
  integer below \<open>2^53\<close> in magnitude is a double. A larger one has more than 53 bits:
  \<open>float_shift\<close> counts the bits beyond 53, the quotient by that power of two is the
  53-bit significand and the remainder decides the rounding.
\<close>

fun float_shift :: "nat \<Rightarrow> nat" where
  "float_shift a = (if a < 2 ^ 53 then 0 else Suc (float_shift (a div 2)))"

declare float_shift.simps [simp del]

definition int_to_float :: "int \<Rightarrow> error + real" where
  "int_to_float i =
     (let a = nat \<bar>i\<bar> in
      if a < 2 ^ 53 then Inr (real_of_int i)
      else
        let e = float_shift a;
            q = a div 2 ^ e;
            r = a mod 2 ^ e;
            half = 2 ^ (e - 1);
            q' = (if r > half \<or> (r = half \<and> odd q) then q + 1 else q);
            m = q' * 2 ^ e
        in if m \<ge> 2 ^ 1024 then Inl OverflowError
           else Inr (if i < 0 then - real m else real m))"

text \<open>
  \<^verbatim>\<open>float(x)\<close>: a float is itself, an integer is converted, a boolean is the integer 0
  or 1, a string is parsed, anything else raises \<^verbatim>\<open>TypeError\<close>. The parser of numeric
  literals is the interpreter's and is a parameter here: \<open>str_to_float s\<close> is \<open>None\<close>
  when \<^verbatim>\<open>float(s)\<close> raises \<^verbatim>\<open>ValueError\<close>.
\<close>

fun py_float :: "(string \<Rightarrow> real option) \<Rightarrow> pyval \<Rightarrow> error + real" where
  "py_float str_to_float (PFloat x) = Inr x"
| "py_float str_to_float (PInt i) = int_to_float i"
| "py_float str_to_float (PBool b) = Inr (if b then 1 else 0)"
| "py_float str_to_float (PStr s) =
     (case str_to_float s of None \<Rightarrow> Inl ValueError | Some x \<Rightarrow> Inr x)"
| "py_float str_to_float PNone = Inl TypeError"
| "py_float str_to_float (PList l) = Inl TypeError"
| "py_float str_to_float (PDict d) = Inl TypeError"

text \<open>The attributes \<^verbatim>\<open>DuplicateCodeDetector.__init__\<close> sets.\<close>

record DuplicateCodeDetector =
  fail_threshold :: int
  ignore_threshold :: int
  file_extensions :: "string list"
  only_code :: bool
  show_loc :: bool

text \<open>
  The body of the inner loop of \<^verbatim>\<open>_process_result\<close> up to the call of
  \<^verbatim>\<open>add_similarity\<close>: the \<^verbatim>\<open>FileSimilarity\<close> built for one item
  \<^verbatim>\<open>(target_file, similarity_data)\<close> of the file's mapping. A dictionary takes the
  first branch, every other value goes through \<^verbatim>\<open>float\<close>.
\<close>

fun make_similarity ::
  "(string \<Rightarrow> real option) \<Rightarrow> string \<Rightarrow> SimilarityReport \<Rightarrow> string \<Rightarrow> pyval
    \<Rightarrow> error + FileSimilarity" where
  "make_similarity str_to_float path report target (PDict similarity_data) =
     Inr \<lparr>source_file = path,
          target_file = target,
          similarity_percentage = dict_get similarity_data ''Similarity'' (PFloat 0),
          source_loc = loc_count report,
          target_loc = dict_get similarity_data ''#LoC'' PNone\<rparr>"
| "make_similarity str_to_float path report target similarity_data =
     (case py_float str_to_float similarity_data of
        Inl e \<Rightarrow> Inl e
      | Inr x \<Rightarrow>
          Inr \<lparr>source_file = path,
               target_file = target,
               similarity_percentage = PFloat x,
               source_loc = loc_count report,
               target_loc = PNone\<rparr>)"

text \<open>The inner loop over the items of the file's mapping; it updates \<^verbatim>\<open>report\<close>.\<close>

fun similarities_loop ::
  "(string \<Rightarrow> real option) \<Rightarrow> string \<Rightarrow> SimilarityReport \<Rightarrow> (string \<times> pyval) list
    \<Rightarrow> error + SimilarityReport" where
  "similarities_loop str_to_float path report [] = Inr report"
| "similarities_loop str_to_float path report ((target, similarity_data) # rest) =
     (case make_similarity str_to_float path report target similarity_data of
        Inl e \<Rightarrow> Inl e
      | Inr similarity \<Rightarrow>
          similarities_loop str_to_float path (add_similarity report similarity) rest)"

text \<open>
  The line count: when \<^verbatim>\<open>show_loc\<close> is set and the value is a dictionary with the key
  \<^verbatim>\<open>"#LoC"\<close>, the report takes the value at that key and the loop below runs over a
  new dictionary without the key. Otherwise report and value stay as they are.
\<close>

fun extract_loc :: "bool \<Rightarrow> SimilarityReport \<Rightarrow> pyval \<Rightarrow> SimilarityReport \<times> pyval" where
  "extract_loc enabled report (PDict items) =
     (case (if enabled then map_of items ''#LoC'' else None) of
        Some loc \<Rightarrow>
          (report\<lparr>loc_count := loc\<rparr>, PDict (filter (\<lambda>(k, v). k \<noteq> ''#LoC'') items))
      | None \<Rightarrow> (report, PDict items))"
| "extract_loc enabled report v = (report, v)"

text \<open>
  One turn of the outer loop, up to the test \<^verbatim>\<open>if report.similarities\<close>: the report of
  one item \<^verbatim>\<open>(file_path, similarities)\<close> of \<^verbatim>\<open>raw_data\<close>. Only a dictionary has
  \<^verbatim>\<open>items()\<close>; on any other value the call raises \<^verbatim>\<open>AttributeError\<close>.
\<close>

definition process_file ::
  "(string \<Rightarrow> real option) \<Rightarrow> DuplicateCodeDetector \<Rightarrow> string \<Rightarrow> pyval
    \<Rightarrow> error + SimilarityReport" where
  "process_file str_to_float self path entry =
     (case extract_loc (show_loc self)
             \<lparr>file_path = path, similarities = [], loc_count = PNone\<rparr> entry of
        (report, PDict items) \<Rightarrow> similarities_loop str_to_float path report items
      | (report, _) \<Rightarrow> Inl AttributeError)"

text \<open>The outer loop over the items of \<^verbatim>\<open>raw_data\<close>; it appends to \<^verbatim>\<open>reports\<close>.\<close>

fun reports_loop ::
  "(string \<Rightarrow> real option) \<Rightarrow> DuplicateCodeDetector \<Rightarrow> SimilarityReport list
    \<Rightarrow> (string \<times> pyval) list \<Rightarrow> error + SimilarityReport list" where
  "reports_loop str_to_float self acc [] = Inr acc"
| "reports_loop str_to_float self acc ((path, entry) # rest) =
     (case process_file str_to_float self path entry of
        Inl e \<Rightarrow> Inl e
      | Inr report \<Rightarrow>
          reports_loop str_to_float self
            (if similarities report \<noteq> [] then acc @ [report] else acc) rest)"

text \<open>\<^verbatim>\<open>DuplicateCodeDetector._process_result\<close>.\<close>

definition process_result ::
  "(string \<Rightarrow> real option) \<Rightarrow> DuplicateCodeDetector \<Rightarrow> ReturnCode \<Rightarrow> (string \<times> pyval) list
    \<Rightarrow> error + DetectionResult" where
  "process_result str_to_float self code data =
     (case reports_loop str_to_float self [] data of
        Inl e \<Rightarrow> Inl e
      | Inr built \<Rightarrow> Inr \<lparr>return_code = code, reports = built, raw_data = data\<rparr>)"

section \<open>Auxiliary notions for the statements\<close>

text \<open>
  The numbers among the Python values, and the real number a number stands for. A
  \<^verbatim>\<open>DetectionResult\<close> conforms to the annotation \<^verbatim>\<open>similarity_percentage: float\<close>
  when every stored percentage is a number.
\<close>

fun numeric :: "pyval \<Rightarrow> bool" where
  "numeric (PFloat x) = True"
| "numeric (PInt i) = True"
| "numeric (PBool b) = True"
| "numeric PNone = False"
| "numeric (PStr s) = False"
| "numeric (PList l) = False"
| "numeric (PDict d) = False"

fun number_value :: "pyval \<Rightarrow> real" where
  "number_value (PFloat x) = x"
| "number_value (PInt i) = real_of_int i"
| "number_value (PBool b) = (if b then 1 else 0)"
| "number_value v = 0"

definition percentages_numeric :: "DetectionResult \<Rightarrow> bool" where
  "percentages_numeric r =
     list_all (\<lambda>rep. list_all (\<lambda>s. numeric (similarity_percentage s)) (similarities rep))
       (reports r)"

text \<open>
  The raw mapping of a run over four files with \<^verbatim>\<open>show_loc\<close>: \<^verbatim>\<open>a.py\<close> and
  \<^verbatim>\<open>b.py\<close> are 80 per cent similar, \<^verbatim>\<open>a.py\<close> and \<^verbatim>\<open>d.py\<close> 40 per cent, and
  \<^verbatim>\<open>c.py\<close> resembles no other file. Below it, the reports that belong to it.
\<close>

definition sample_raw :: "(string \<times> pyval) list" where
  "sample_raw =
     [(''a.py'', PDict [(''#LoC'', PInt 10),
                        (''b.py'', PDict [(''Similarity'', PFloat 80), (''#LoC'', PInt 12)]),
                        (''d.py'', PDict [(''Similarity'', PFloat 40), (''#LoC'', PInt 7)])]),
      (''b.py'', PDict [(''#LoC'', PInt 12),
                        (''a.py'', PDict [(''Similarity'', PFloat 80), (''#LoC'', PInt 10)])]),
      (''c.py'', PDict [(''#LoC'', PInt 3)]),
      (''d.py'', PDict [(''#LoC'', PInt 7),
                        (''a.py'', PDict [(''Similarity'', PFloat 40), (''#LoC'', PInt 10)])])]"

definition sample_reports :: "SimilarityReport list" where
  "sample_reports =
     [\<lparr>file_path = ''a.py'',
       similarities =
         [\<lparr>source_file = ''a.py'', target_file = ''b.py'', similarity_percentage = PFloat 80,
            source_loc = PInt 10, target_loc = PInt 12\<rparr>,
          \<lparr>source_file = ''a.py'', target_file = ''d.py'', similarity_percentage = PFloat 40,
            source_loc = PInt 10, target_loc = PInt 7\<rparr>],
       loc_count = PInt 10\<rparr>,
      \<lparr>file_path = ''b.py'',
       similarities =
         [\<lparr>source_file = ''b.py'', target_file = ''a.py'', similarity_percentage = PFloat 80,
            source_loc = PInt 12, target_loc = PInt 10\<rparr>],
       loc_count = PInt 12\<rparr>,
      \<lparr>file_path = ''d.py'',
       similarities =
         [\<lparr>source_file = ''d.py'', target_file = ''a.py'', similarity_percentage = PFloat 40,
            source_loc = PInt 7, target_loc = PInt 10\<rparr>],
       loc_count = PInt 7\<rparr>]"

definition sample_result :: DetectionResult where
  "sample_result = \<lparr>return_code = SUCCESS, reports = sample_reports, raw_data = sample_raw\<rparr>"

text \<open>
  A raw mapping without nested line counts for every target: \<^verbatim>\<open>b.py\<close> has a plain
  float, \<^verbatim>\<open>c.py\<close> a plain integer that is no double (\<open>2^53 + 1\<close>), \<^verbatim>\<open>d.py\<close> a
  nested mapping and \<^verbatim>\<open>e.py\<close> an empty one. Below it, the result that belongs to it.
\<close>

definition plain_raw :: "(string \<times> pyval) list" where
  "plain_raw =
     [(''a.py'', PDict [(''#LoC'', PInt 10),
                        (''b.py'', PFloat 80),
                        (''c.py'', PInt 9007199254740993),
                        (''d.py'', PDict [(''Similarity'', PFloat 40), (''#LoC'', PInt 7)]),
                        (''e.py'', PDict [])])]"

definition plain_result :: DetectionResult where
  "plain_result =
     \<lparr>return_code = SUCCESS,
      reports =
        [\<lparr>file_path = ''a.py'',
          similarities =
            [\<lparr>source_file = ''a.py'', target_file = ''b.py'', similarity_percentage = PFloat 80,
               source_loc = PInt 10, target_loc = PNone\<rparr>,
             \<lparr>source_file = ''a.py'', target_file = ''c.py'',
               similarity_percentage = PFloat 9007199254740992,
               source_loc = PInt 10, target_loc = PNone\<rparr>,
             \<lparr>source_file = ''a.py'', target_file = ''d.py'', similarity_percentage = PFloat 40,
               source_loc = PInt 10, target_loc = PInt 7\<rparr>,
             \<lparr>source_file = ''a.py'', target_file = ''e.py'', similarity_percentage = PFloat 0,
               source_loc = PInt 10, target_loc = PNone\<rparr>],
          loc_count = PInt 10\<rparr>],
      raw_data = plain_raw\<rparr>"

text \<open>
  The items of a file's mapping that the inner loop of \<^verbatim>\<open>_process_result\<close> turns into
  similarities: all of them, but for the key \<^verbatim>\<open>"#LoC"\<close> when \<^verbatim>\<open>show_loc\<close> is set.
\<close>

fun similarity_items :: "bool \<Rightarrow> pyval \<Rightarrow> (string \<times> pyval) list" where
  "similarity_items enabled (PDict items) =
     (if enabled then filter (\<lambda>(k, v). k \<noteq> ''#LoC'') items else items)"
| "similarity_items enabled v = []"

text \<open>The detector that \<^verbatim>\<open>DuplicateCodeDetector()\<close> builds from its default arguments.\<close>

definition default_detector :: DuplicateCodeDetector where
  "default_detector =
     \<lparr>fail_threshold = 100, ignore_threshold = 15,
      file_extensions = [''py'', ''js'', ''ts'', ''java'', ''cpp'', ''c'', ''h''],
      only_code = False, show_loc = True\<rparr>"

section \<open>The module on a store of objects\<close>

text \<open>
  The functions above work on values, so they cannot say whether a method writes to an
  object it was given. For that, the objects live in a store. A dictionary, a list, a
  \<^verbatim>\<open>FileSimilarity\<close>, a \<^verbatim>\<open>SimilarityReport\<close> and a \<^verbatim>\<open>DetectionResult\<close> are objects;
  a dictionary value or a field is a slot, which holds a reference to an object or, for a
  value that is no dictionary and that nothing can write to, the value itself. Strings
  and the return code are kept inside the object that holds them.
  \<^verbatim>\<open>next_free\<close> is the first address that no object has yet.
\<close>

type_synonym addr = nat

datatype slot = Val pyval | Ref addr

datatype obj =
    NoObject
  | ListObj "addr list"
  | DictObj "(string \<times> slot) list"
  | FileSimilarityObj string string slot slot slot
  | SimilarityReportObj string addr slot
  | DetectionResultObj ReturnCode addr addr

record store =
  cell :: "addr \<Rightarrow> obj"
  next_free :: addr

text \<open>A new object, and \<^verbatim>\<open>l.append(x)\<close>, which writes into the list object.\<close>

definition alloc :: "store \<Rightarrow> obj \<Rightarrow> addr \<times> store" where
  "alloc st v =
     (next_free st, st\<lparr>cell := (cell st)(next_free st := v), next_free := Suc (next_free st)\<rparr>)"

definition list_append :: "store \<Rightarrow> addr \<Rightarrow> addr \<Rightarrow> (error + unit) \<times> store" where
  "list_append st l x =
     (case cell st l of
        ListObj xs \<Rightarrow> (Inr (), st\<lparr>cell := (cell st)(l := ListObj (xs @ [x]))\<rparr>)
      | _ \<Rightarrow> (Inl AttributeError, st))"

subsection \<open>The queries\<close>

text \<open>
  The methods: each returns its outcome and the store it leaves, also when it raises.
  Reading an attribute of an object of another class raises \<^verbatim>\<open>AttributeError\<close>, and
  \<^verbatim>\<open>len\<close> or a loop over something that is no list raises \<^verbatim>\<open>TypeError\<close>.
\<close>

definition is_success_st :: "store \<Rightarrow> addr \<Rightarrow> (error + bool) \<times> store" where
  "is_success_st st self =
     (case cell st self of
        DetectionResultObj code reps raw \<Rightarrow> (Inr (code = SUCCESS), st)
      | _ \<Rightarrow> (Inl AttributeError, st))"

definition has_duplications_st :: "store \<Rightarrow> addr \<Rightarrow> (error + bool) \<times> store" where
  "has_duplications_st st self =
     (case cell st self of
        DetectionResultObj code reps raw \<Rightarrow>
          (case cell st reps of
             ListObj rs \<Rightarrow> (Inr (length rs > 0), st)
           | _ \<Rightarrow> (Inl TypeError, st))
      | _ \<Rightarrow> (Inl AttributeError, st))"

text \<open>
  \<^verbatim>\<open>x >= threshold\<close> on a slot: an object (a dictionary, a list, an instance of a class
  of this module) does not compare with a float.
\<close>

fun slot_ge :: "slot \<Rightarrow> real \<Rightarrow> error + bool" where
  "slot_ge (Val v) t = py_ge v t"
| "slot_ge (Ref a) t = Inl TypeError"

text \<open>
  The comprehension of \<^verbatim>\<open>get_high_similarities\<close> reads the percentage of each element
  and gives a new list object with the references it keeps.
\<close>

fun high_comprehension_st :: "store \<Rightarrow> addr list \<Rightarrow> real \<Rightarrow> error + addr list" where
  "high_comprehension_st st [] threshold = Inr []"
| "high_comprehension_st st (x # xs) threshold =
     (case cell st x of
        FileSimilarityObj src tgt pct sloc tloc \<Rightarrow>
          (case slot_ge pct threshold of
             Inl e \<Rightarrow> Inl e
           | Inr keep \<Rightarrow>
               (case high_comprehension_st st xs threshold of
                  Inl e \<Rightarrow> Inl e
                | Inr rest \<Rightarrow> Inr (if keep then x # rest else rest)))
      | _ \<Rightarrow> Inl AttributeError)"

definition get_high_similarities_st :: "store \<Rightarrow> addr \<Rightarrow> real \<Rightarrow> (error + addr) \<times> store" where
  "get_high_similarities_st st self threshold =
     (case cell st self of
        SimilarityReportObj path sims loc \<Rightarrow>
          (case cell st sims of
             ListObj xs \<Rightarrow>
               (case high_comprehension_st st xs threshold of
                  Inl e \<Rightarrow> (Inl e, st)
                | Inr kept \<Rightarrow> (case alloc st (ListObj kept) of (a, st') \<Rightarrow> (Inr a, st')))
           | _ \<Rightarrow> (Inl TypeError, st))
      | _ \<Rightarrow> (Inl AttributeError, st))"

text \<open>
  \<^verbatim>\<open>get_critical_duplications\<close> makes the list \<^verbatim>\<open>critical\<close> and appends to it in its
  two loops. A loop runs over the elements its list has when the loop starts.
\<close>

fun append_each_st :: "store \<Rightarrow> addr \<Rightarrow> addr list \<Rightarrow> (error + unit) \<times> store" where
  "append_each_st st critical [] = (Inr (), st)"
| "append_each_st st critical (x # xs) =
     (case list_append st critical x of
        (Inl e, st') \<Rightarrow> (Inl e, st')
      | (Inr u, st') \<Rightarrow> append_each_st st' critical xs)"

fun critical_loop_st :: "store \<Rightarrow> addr \<Rightarrow> addr list \<Rightarrow> real \<Rightarrow> (error + unit) \<times> store" where
  "critical_loop_st st critical [] threshold = (Inr (), st)"
| "critical_loop_st st critical (report # rest) threshold =
     (case get_high_similarities_st st report threshold of
        (Inl e, st') \<Rightarrow> (Inl e, st')
      | (Inr high, st') \<Rightarrow>
          (case cell st' high of
             ListObj hs \<Rightarrow>
               (case append_each_st st' critical hs of
                  (Inl e, st'') \<Rightarrow> (Inl e, st'')
                | (Inr u, st'') \<Rightarrow> critical_loop_st st'' critical rest threshold)
           | _ \<Rightarrow> (Inl TypeError, st')))"

definition get_critical_duplications_st :: "store \<Rightarrow> addr \<Rightarrow> real \<Rightarrow> (error + addr) \<times> store" where
  "get_critical_duplications_st st self threshold =
     (case alloc st (ListObj []) of
        (critical, st1) \<Rightarrow>
          (case cell st1 self of
             DetectionResultObj code reps raw \<Rightarrow>
               (case cell st1 reps of
                  ListObj rs \<Rightarrow>
                    (case critical_loop_st st1 critical rs threshold of
                       (Inl e, st2) \<Rightarrow> (Inl e, st2)
                     | (Inr u, st2) \<Rightarrow> (Inr critical, st2))
                | _ \<Rightarrow> (Inl TypeError, st1))
           | _ \<Rightarrow> (Inl AttributeError, st1)))"

subsection \<open>Building the result\<close>

text \<open>
  \<^verbatim>\<open>isinstance(x, dict)\<close> together with the items of the dictionary, \<^verbatim>\<open>d.get(key,
  default)\<close> on these items, and \<^verbatim>\<open>float(x)\<close>, which raises \<^verbatim>\<open>TypeError\<close> on an
  object.
\<close>

fun dict_items :: "store \<Rightarrow> slot \<Rightarrow> (string \<times> slot) list option" where
  "dict_items st (Val v) = None"
| "dict_items st (Ref a) = (case cell st a of DictObj items \<Rightarrow> Some items | _ \<Rightarrow> None)"

definition slot_get :: "(string \<times> slot) list \<Rightarrow> string \<Rightarrow> slot \<Rightarrow> slot" where
  "slot_get d k dflt = (case map_of d k of None \<Rightarrow> dflt | Some s \<Rightarrow> s)"

fun slot_float :: "(string \<Rightarrow> real option) \<Rightarrow> slot \<Rightarrow> error + real" where
  "slot_float str_to_float (Val v) = py_float str_to_float v"
| "slot_float str_to_float (Ref a) = Inl TypeError"

text \<open>
  The \<^verbatim>\<open>FileSimilarity\<close> for one item of a file's mapping, not yet in the store. The
  values found in the mapping go into its fields as they are; \<^verbatim>\<open>source_loc\<close> is read
  from the report.
\<close>

definition make_similarity_st ::
  "(string \<Rightarrow> real option) \<Rightarrow> store \<Rightarrow> string \<Rightarrow> addr \<Rightarrow> string \<Rightarrow> slot \<Rightarrow> error + obj" where
  "make_similarity_st str_to_float st path report target similarity_data =
     (case dict_items st similarity_data of
        Some sd \<Rightarrow>
          (case cell st report of
             SimilarityReportObj fp sims loc \<Rightarrow>
               Inr (FileSimilarityObj path target
                      (slot_get sd ''Similarity'' (Val (PFloat 0))) loc
                      (slot_get sd ''#LoC'' (Val PNone)))
           | _ \<Rightarrow> Inl AttributeError)
      | None \<Rightarrow>
          (case slot_float str_to_float similarity_data of
             Inl e \<Rightarrow> Inl e
           | Inr x \<Rightarrow>
               (case cell st report of
                  SimilarityReportObj fp sims loc \<Rightarrow>
                    Inr (FileSimilarityObj path target (Val (PFloat x)) loc (Val PNone))
                | _ \<Rightarrow> Inl AttributeError)))"

text \<open>\<^verbatim>\<open>add_similarity\<close> appends to the list that the report refers to.\<close>

definition add_similarity_st :: "store \<Rightarrow> addr \<Rightarrow> addr \<Rightarrow> (error + unit) \<times> store" where
  "add_similarity_st st self similarity =
     (case cell st self of
        SimilarityReportObj fp sims loc \<Rightarrow> list_append st sims similarity
      | _ \<Rightarrow> (Inl AttributeError, st))"

fun similarities_loop_st ::
  "(string \<Rightarrow> real option) \<Rightarrow> store \<Rightarrow> string \<Rightarrow> addr \<Rightarrow> (string \<times> slot) list
    \<Rightarrow> (error + unit) \<times> store" where
  "similarities_loop_st str_to_float st path report [] = (Inr (), st)"
| "similarities_loop_st str_to_float st path report ((target, similarity_data) # rest) =
     (case make_similarity_st str_to_float st path report target similarity_data of
        Inl e \<Rightarrow> (Inl e, st)
      | Inr made \<Rightarrow>
          (case alloc st made of
             (similarity, st1) \<Rightarrow>
               (case add_similarity_st st1 report similarity of
                  (Inl e, st2) \<Rightarrow> (Inl e, st2)
                | (Inr u, st2) \<Rightarrow> similarities_loop_st str_to_float st2 path report rest)))"

text \<open>
  \<^verbatim>\<open>report.loc_count = loc\<close> writes into the report, and the comprehension that drops
  the key \<^verbatim>\<open>"#LoC"\<close> makes a new dictionary: the one in \<^verbatim>\<open>raw_data\<close> is only read.
  The result is the items the inner loop runs over.
\<close>

definition set_loc_count :: "store \<Rightarrow> addr \<Rightarrow> slot \<Rightarrow> store" where
  "set_loc_count st report loc =
     (case cell st report of
        SimilarityReportObj fp sims old \<Rightarrow>
          st\<lparr>cell := (cell st)(report := SimilarityReportObj fp sims loc)\<rparr>
      | _ \<Rightarrow> st)"

definition extract_loc_st ::
  "bool \<Rightarrow> store \<Rightarrow> addr \<Rightarrow> (string \<times> slot) list \<Rightarrow> (string \<times> slot) list \<times> store" where
  "extract_loc_st enabled st report items =
     (case (if enabled then map_of items ''#LoC'' else None) of
        Some loc \<Rightarrow>
          (case alloc (set_loc_count st report loc)
                  (DictObj (filter (\<lambda>(k, v). k \<noteq> ''#LoC'') items)) of
             (copy, st') \<Rightarrow> (filter (\<lambda>(k, v). k \<noteq> ''#LoC'') items, st'))
      | None \<Rightarrow> (items, st))"

text \<open>
  One turn of the outer loop, up to the test \<^verbatim>\<open>if report.similarities\<close>. Making the
  report makes its empty list first.
\<close>

definition process_file_st ::
  "(string \<Rightarrow> real option) \<Rightarrow> DuplicateCodeDetector \<Rightarrow> store \<Rightarrow> string \<Rightarrow> slot
    \<Rightarrow> (error + addr) \<times> store" where
  "process_file_st str_to_float self st path entry =
     (case alloc st (ListObj []) of
        (sims, st1) \<Rightarrow>
          (case alloc st1 (SimilarityReportObj path sims (Val PNone)) of
             (report, st2) \<Rightarrow>
               (case dict_items st2 entry of
                  Some items \<Rightarrow>
                    (case extract_loc_st (show_loc self) st2 report items of
                       (looped, st3) \<Rightarrow>
                         (case similarities_loop_st str_to_float st3 path report looped of
                            (Inl e, st4) \<Rightarrow> (Inl e, st4)
                          | (Inr u, st4) \<Rightarrow> (Inr report, st4)))
                | None \<Rightarrow> (Inl AttributeError, st2))))"

text \<open>The test \<^verbatim>\<open>if report.similarities\<close>: a list is true when it has an element.\<close>

definition has_similarities_st :: "store \<Rightarrow> addr \<Rightarrow> error + bool" where
  "has_similarities_st st report =
     (case cell st report of
        SimilarityReportObj fp sims loc \<Rightarrow>
          (case cell st sims of
             ListObj xs \<Rightarrow> Inr (xs \<noteq> [])
           | DictObj items \<Rightarrow> Inr (items \<noteq> [])
           | _ \<Rightarrow> Inr True)
      | _ \<Rightarrow> Inl AttributeError)"

fun reports_loop_st ::
  "(string \<Rightarrow> real option) \<Rightarrow> DuplicateCodeDetector \<Rightarrow> store \<Rightarrow> addr
    \<Rightarrow> (string \<times> slot) list \<Rightarrow> (error + unit) \<times> store" where
  "reports_loop_st str_to_float self st reps [] = (Inr (), st)"
| "reports_loop_st str_to_float self st reps ((path, entry) # rest) =
     (case process_file_st str_to_float self st path entry of
        (Inl e, st1) \<Rightarrow> (Inl e, st1)
      | (Inr report, st1) \<Rightarrow>
          (case has_similarities_st st1 report of
             Inl e \<Rightarrow> (Inl e, st1)
           | Inr True \<Rightarrow>
               (case list_append st1 reps report of
                  (Inl e, st2) \<Rightarrow> (Inl e, st2)
                | (Inr u, st2) \<Rightarrow> reports_loop_st str_to_float self st2 reps rest)
           | Inr False \<Rightarrow> reports_loop_st str_to_float self st1 reps rest))"

text \<open>
  \<^verbatim>\<open>_process_result\<close>: the result object refers to the dictionary it was given.
\<close>

definition process_result_st ::
  "(string \<Rightarrow> real option) \<Rightarrow> DuplicateCodeDetector \<Rightarrow> store \<Rightarrow> ReturnCode \<Rightarrow> addr
    \<Rightarrow> (error + addr) \<times> store" where
  "process_result_st str_to_float self st code data =
     (case alloc st (ListObj []) of
        (reps, st1) \<Rightarrow>
          (case cell st1 data of
             DictObj items \<Rightarrow>
               (case reports_loop_st str_to_float self st1 reps items of
                  (Inl e, st2) \<Rightarrow> (Inl e, st2)
                | (Inr u, st2) \<Rightarrow>
                    (case alloc st2 (DetectionResultObj code reps data) of
                       (result, st3) \<Rightarrow> (Inr result, st3)))
           | _ \<Rightarrow> (Inl AttributeError, st1)))"

subsection \<open>Reading values from the store\<close>

text \<open>
  The value a slot stands for. A slot that holds a value holds no dictionary, since a
  dictionary is an object. \<^verbatim>\<open>raw_data\<close> has three levels: its values are the files'
  mappings, whose values are numbers or the mappings with \<^verbatim>\<open>"Similarity"\<close> and
  \<^verbatim>\<open>"#LoC"\<close>, whose values are numbers. A view is \<open>None\<close> when a reference leads
  elsewhere or deeper.
\<close>

definition view_items ::
  "(slot \<Rightarrow> pyval option) \<Rightarrow> (string \<times> slot) list \<Rightarrow> (string \<times> pyval) list option" where
  "view_items f items = those (map (\<lambda>(k, s). map_option (Pair k) (f s)) items)"

fun view_atom :: "pyval \<Rightarrow> pyval option" where
  "view_atom (PDict d) = None"
| "view_atom v = Some v"

fun view_leaf :: "slot \<Rightarrow> pyval option" where
  "view_leaf (Val v) = view_atom v"
| "view_leaf (Ref a) = None"

fun view_field :: "store \<Rightarrow> slot \<Rightarrow> pyval option" where
  "view_field st (Val v) = view_atom v"
| "view_field st (Ref a) =
     (case cell st a of
        DictObj items \<Rightarrow> map_option PDict (view_items view_leaf items)
      | _ \<Rightarrow> None)"

fun view_entry :: "store \<Rightarrow> slot \<Rightarrow> pyval option" where
  "view_entry st (Val v) = view_atom v"
| "view_entry st (Ref a) =
     (case cell st a of
        DictObj items \<Rightarrow> map_option PDict (view_items (view_field st) items)
      | _ \<Rightarrow> None)"

text \<open>
  The views of the objects; a field holds what was found in a file's mapping.
\<close>

definition view_raw :: "store \<Rightarrow> addr \<Rightarrow> (string \<times> pyval) list option" where
  "view_raw st a =
     (case cell st a of DictObj items \<Rightarrow> view_items (view_entry st) items | _ \<Rightarrow> None)"

fun view_similarity_obj :: "store \<Rightarrow> obj \<Rightarrow> FileSimilarity option" where
  "view_similarity_obj st (FileSimilarityObj src tgt pct sloc tloc) =
     (case (view_field st pct, view_field st sloc, view_field st tloc) of
        (Some p, Some sv, Some tv) \<Rightarrow>
          Some \<lparr>source_file = src, target_file = tgt, similarity_percentage = p,
                source_loc = sv, target_loc = tv\<rparr>
      | _ \<Rightarrow> None)"
| "view_similarity_obj st other = None"

definition view_similarity :: "store \<Rightarrow> addr \<Rightarrow> FileSimilarity option" where
  "view_similarity st a = view_similarity_obj st (cell st a)"

definition view_similarities :: "store \<Rightarrow> addr \<Rightarrow> FileSimilarity list option" where
  "view_similarities st a =
     (case cell st a of ListObj xs \<Rightarrow> those (map (view_similarity st) xs) | _ \<Rightarrow> None)"

definition view_report :: "store \<Rightarrow> addr \<Rightarrow> SimilarityReport option" where
  "view_report st a =
     (case cell st a of
        SimilarityReportObj path sims loc \<Rightarrow>
          (case (view_similarities st sims, view_field st loc) of
             (Some ss, Some l) \<Rightarrow> Some \<lparr>file_path = path, similarities = ss, loc_count = l\<rparr>
           | _ \<Rightarrow> None)
      | _ \<Rightarrow> None)"

definition view_result :: "store \<Rightarrow> addr \<Rightarrow> DetectionResult option" where
  "view_result st a =
     (case cell st a of
        DetectionResultObj code reps raw \<Rightarrow>
          (case cell st reps of
             ListObj rs \<Rightarrow>
               (case (those (map (view_report st) rs), view_raw st raw) of
                  (Some built, Some d) \<Rightarrow>
                    Some \<lparr>return_code = code, reports = built, raw_data = d\<rparr>
                | _ \<Rightarrow> None)
           | _ \<Rightarrow> None)
      | _ \<Rightarrow> None)"

text \<open>
  In a well-formed store no object lies at or beyond \<^verbatim>\<open>next_free\<close>. A store extends
  another when every object of the other is in it, unchanged.
\<close>

definition store_ok :: "store \<Rightarrow> bool" where
  "store_ok st = (\<forall>a\<ge>next_free st. cell st a = NoObject)"

definition extends :: "store \<Rightarrow> store \<Rightarrow> bool" where
  "extends st st' = (next_free st \<le> next_free st' \<and> (\<forall>a<next_free st. cell st' a = cell st a))"

subsection \<open>A sample store\<close>

text \<open>
  The sample result and its raw mapping as twenty-one objects: the \<^verbatim>\<open>DetectionResult\<close>
  is at address 0, its \<^verbatim>\<open>raw_data\<close> at address 12.
\<close>

definition sample_objects :: "obj list" where
  "sample_objects =
     [DetectionResultObj SUCCESS 1 12,
      ListObj [2, 3, 4],
      SimilarityReportObj ''a.py'' 5 (Val (PInt 10)),
      SimilarityReportObj ''b.py'' 6 (Val (PInt 12)),
      SimilarityReportObj ''d.py'' 7 (Val (PInt 7)),
      ListObj [8, 9],
      ListObj [10],
      ListObj [11],
      FileSimilarityObj ''a.py'' ''b.py'' (Val (PFloat 80)) (Val (PInt 10)) (Val (PInt 12)),
      FileSimilarityObj ''a.py'' ''d.py'' (Val (PFloat 40)) (Val (PInt 10)) (Val (PInt 7)),
      FileSimilarityObj ''b.py'' ''a.py'' (Val (PFloat 80)) (Val (PInt 12)) (Val (PInt 10)),
      FileSimilarityObj ''d.py'' ''a.py'' (Val (PFloat 40)) (Val (PInt 7)) (Val (PInt 10)),
      DictObj [(''a.py'', Ref 13), (''b.py'', Ref 14), (''c.py'', Ref 15), (''d.py'', Ref 16)],
      DictObj [(''#LoC'', Val (PInt 10)), (''b.py'', Ref 17), (''d.py'', Ref 18)],
      DictObj [(''#LoC'', Val (PInt 12)), (''a.py'', Ref 19)],
      DictObj [(''#LoC'', Val (PInt 3))],
      DictObj [(''#LoC'', Val (PInt 7)), (''a.py'', Ref 20)],
      DictObj [(''Similarity'', Val (PFloat 80)), (''#LoC'', Val (PInt 12))],
      DictObj [(''Similarity'', Val (PFloat 40)), (''#LoC'', Val (PInt 7))],
      DictObj [(''Similarity'', Val (PFloat 80)), (''#LoC'', Val (PInt 10))],
      DictObj [(''Similarity'', Val (PFloat 40)), (''#LoC'', Val (PInt 10))]]"

definition sample_store :: store where
  "sample_store =
     \<lparr>cell = (\<lambda>a. if a < length sample_objects then sample_objects ! a else NoObject),
      next_free = length sample_objects\<rparr>"

section \<open>Properties of the queries\<close>

lemma py_ge_numeric: "numeric v \<Longrightarrow> py_ge v t = Inr (t \<le> number_value v)"
  by (cases v) simp_all

lemma py_ge_not_numeric: "\<not> numeric v \<Longrightarrow> py_ge v t = Inl TypeError"
  by (cases v) simp_all

lemma append_each_eq: "append_each critical xs = critical @ xs"
  by (induction xs arbitrary: critical) simp_all

text \<open>
  The comprehension is a filter when every percentage is a number, and raises
  \<^verbatim>\<open>TypeError\<close> otherwise.
\<close>

lemma high_comprehension_eq:
  "high_comprehension ss t =
     (if list_all (\<lambda>s. numeric (similarity_percentage s)) ss
      then Inr (filter (\<lambda>s. t \<le> number_value (similarity_percentage s)) ss)
      else Inl TypeError)"
proof (induction ss)
  case Nil
  show ?case by simp
next
  case (Cons s ss)
  show ?case
  proof (cases "numeric (similarity_percentage s)")
    case True
    then show ?thesis using Cons.IH by (simp add: py_ge_numeric)
  next
    case False
    then show ?thesis by (simp add: py_ge_not_numeric)
  qed
qed

lemma critical_loop_eq:
  "critical_loop t reps critical =
     (if list_all (\<lambda>rep. list_all (\<lambda>s. numeric (similarity_percentage s)) (similarities rep)) reps
      then Inr (critical @ concat (map (\<lambda>rep. filter (\<lambda>s. t \<le> number_value (similarity_percentage s))
                                       (similarities rep)) reps))
      else Inl TypeError)"
proof (induction reps arbitrary: critical)
  case Nil
  show ?case by simp
next
  case (Cons rep reps)
  show ?case
    by (simp add: get_high_similarities_def high_comprehension_eq append_each_eq Cons.IH)
qed

text \<open>
  Claim C1. For every \<^verbatim>\<open>DetectionResult\<close> (with numbers as percentages, as the field
  is annotated) and every threshold \<open>t\<close>, \<^verbatim>\<open>get_critical_duplications(t)\<close> returns
  the flattened list of the entries of all reports whose percentage is at least \<open>t\<close>
  (the bound included), in the order of the reports and, within a report, in the order
  of its list.
\<close>

theorem get_critical_duplications_flattens:
  assumes "percentages_numeric r"
  shows "get_critical_duplications r t =
     Inr (concat (map (\<lambda>rep. filter (\<lambda>s. t \<le> number_value (similarity_percentage s))
                                (similarities rep)) (reports r)))"
  using assms by (simp add: get_critical_duplications_def critical_loop_eq percentages_numeric_def)

theorem get_critical_duplications_flattens_witness:
  "percentages_numeric sample_result \<and>
   get_critical_duplications sample_result 50 =
     Inr [\<lparr>source_file = ''a.py'', target_file = ''b.py'', similarity_percentage = PFloat 80,
            source_loc = PInt 10, target_loc = PInt 12\<rparr>,
          \<lparr>source_file = ''b.py'', target_file = ''a.py'', similarity_percentage = PFloat 80,
            source_loc = PInt 12, target_loc = PInt 10\<rparr>]"
proof -
  have num: "percentages_numeric sample_result"
    by (simp add: percentages_numeric_def sample_result_def sample_reports_def)
  show ?thesis
    using num get_critical_duplications_flattens [OF num, of 50]
    by (simp add: sample_result_def sample_reports_def)
qed

text \<open>
  Claim C2. For thresholds \<open>t1 \<le> t2\<close>, whenever \<^verbatim>\<open>get_critical_duplications(t2)\<close>
  returns, \<^verbatim>\<open>get_critical_duplications(t1)\<close> returns too and every entry of the first
  list is an entry of the second: the result shrinks as the threshold grows.
\<close>

theorem critical_duplications_antimonotone:
  assumes "t1 \<le> t2" and "get_critical_duplications r t2 = Inr l2"
  shows "\<exists>l1. get_critical_duplications r t1 = Inr l1 \<and> set l2 \<subseteq> set l1"
proof -
  let ?flat = "\<lambda>t. concat (map (\<lambda>rep. filter (\<lambda>s. t \<le> number_value (similarity_percentage s))
                                (similarities rep)) (reports r))"
  from assms(2) have num:
    "list_all (\<lambda>rep. list_all (\<lambda>s. numeric (similarity_percentage s)) (similarities rep)) (reports r)"
    and l2: "l2 = ?flat t2"
    by (simp_all add: get_critical_duplications_def critical_loop_eq split: if_splits)
  have l1: "get_critical_duplications r t1 = Inr (?flat t1)"
    using num by (simp add: get_critical_duplications_def critical_loop_eq)
  have "set (?flat t2) \<subseteq> set (?flat t1)"
    using assms(1) by auto
  with l1 l2 show ?thesis by simp
qed

theorem critical_duplications_antimonotone_witness:
  "(40::real) \<le> 50 \<and>
   get_critical_duplications sample_result 50 =
     Inr [\<lparr>source_file = ''a.py'', target_file = ''b.py'', similarity_percentage = PFloat 80,
            source_loc = PInt 10, target_loc = PInt 12\<rparr>,
          \<lparr>source_file = ''b.py'', target_file = ''a.py'', similarity_percentage = PFloat 80,
            source_loc = PInt 12, target_loc = PInt 10\<rparr>] \<and>
   (\<exists>l1. get_critical_duplications sample_result 40 = Inr l1 \<and>
      set [\<lparr>source_file = ''a.py'', target_file = ''b.py'', similarity_percentage = PFloat 80,
             source_loc = PInt 10, target_loc = PInt 12\<rparr>,
           \<lparr>source_file = ''b.py'', target_file = ''a.py'', similarity_percentage = PFloat 80,
             source_loc = PInt 12, target_loc = PInt 10\<rparr>] \<subseteq> set l1)"
proof -
  have le: "(40::real) \<le> 50" by simp
  have run: "get_critical_duplications sample_result 50 =
     Inr [\<lparr>source_file = ''a.py'', target_file = ''b.py'', similarity_percentage = PFloat 80,
            source_loc = PInt 10, target_loc = PInt 12\<rparr>,
          \<lparr>source_file = ''b.py'', target_file = ''a.py'', similarity_percentage = PFloat 80,
            source_loc = PInt 12, target_loc = PInt 10\<rparr>]"
    by (simp add: get_critical_duplications_def get_high_similarities_def sample_result_def
        sample_reports_def)
  from critical_duplications_antimonotone [OF le run] le run show ?thesis by blast
qed

text \<open>
  Claim C6. \<^verbatim>\<open>is_success()\<close> is true exactly when the return code is
  \<^verbatim>\<open>ReturnCode.SUCCESS\<close>, which is the code of value 0; every threshold-exceeded code
  makes it false.
\<close>

theorem is_success_iff:
  "is_success r = (return_code r = SUCCESS) \<and>
   is_success r = (ReturnCode_value (return_code r) = 0) \<and>
   is_success (r\<lparr>return_code := THRESHOLD_EXCEEDED n\<rparr>) = False"
  by (cases "return_code r") (simp_all add: is_success_def)

text \<open>
  Claim C7. \<^verbatim>\<open>to_dict()\<close> of a \<^verbatim>\<open>DetectionResult\<close> is the document with the keys
  \<^verbatim>\<open>return_code\<close>, \<^verbatim>\<open>success\<close>, \<^verbatim>\<open>has_duplications\<close>, \<^verbatim>\<open>reports\<close> and
  \<^verbatim>\<open>raw_data\<close>, in which \<^verbatim>\<open>success\<close> is \<^verbatim>\<open>is_success()\<close>,
  \<^verbatim>\<open>has_duplications\<close> is \<^verbatim>\<open>has_duplications()\<close>, each report is the document
  of \<^verbatim>\<open>file_path\<close>, \<^verbatim>\<open>loc_count\<close> and \<^verbatim>\<open>similarities\<close>, and each similarity
  the document of its five fields.
\<close>

theorem to_dict_document:
  "DetectionResult_to_dict r = PDict
     [(''return_code'', PInt (ReturnCode_value (return_code r))),
      (''success'', PBool (is_success r)),
      (''has_duplications'', PBool (has_duplications r)),
      (''reports'', PList (map (\<lambda>rep. PDict
          [(''file_path'', PStr (file_path rep)),
           (''loc_count'', loc_count rep),
           (''similarities'', PList (map (\<lambda>s. PDict
               [(''source_file'', PStr (source_file s)),
                (''target_file'', PStr (target_file s)),
                (''similarity_percentage'', similarity_percentage s),
                (''source_loc'', source_loc s),
                (''target_loc'', target_loc s)]) (similarities rep)))]) (reports r))),
      (''raw_data'', PDict (raw_data r))]"
  by (simp add: DetectionResult_to_dict_def SimilarityReport_to_dict_def
      FileSimilarity_to_dict_def)

section \<open>Properties of the result built from the raw data\<close>

subsection \<open>The conversion of integers to floats\<close>

text \<open>
  An integer with more than 53 bits lies between the powers of two that its shift names;
  below \<open>2^53\<close> the conversion is exact, from \<open>2^1024\<close> on it overflows, and
  \<open>2^53 + 1\<close> is the first integer that is rounded.
\<close>

lemma float_shift_bounds:
  "2 ^ 53 \<le> a \<Longrightarrow> 2 ^ (float_shift a + 52) \<le> a \<and> a < 2 ^ (float_shift a + 53)"
proof (induction a rule: float_shift.induct)
  case (1 a)
  from "1.prems" have big: "\<not> a < 2 ^ 53" by simp
  then have unfold: "float_shift a = Suc (float_shift (a div 2))"
    by (subst float_shift.simps) simp
  show ?case
  proof (cases "a div 2 < 2 ^ 53")
    case True
    then have "float_shift (a div 2) = 0"
      by (subst float_shift.simps) simp
    with unfold have "float_shift a = 1" by simp
    moreover from True have "a < 2 ^ 54" by simp
    ultimately show ?thesis using "1.prems" by simp
  next
    case False
    then have "2 ^ 53 \<le> a div 2" by simp
    from "1.IH" [OF big this] have
      lo: "2 ^ (float_shift (a div 2) + 52) \<le> a div 2" and
      hi: "a div 2 < 2 ^ (float_shift (a div 2) + 53)"
      by simp_all
    define k where "k = float_shift (a div 2)"
    have "2 * 2 ^ (k + 52) \<le> 2 * (a div 2)"
      using lo by (simp add: k_def)
    also have "\<dots> \<le> a" by simp
    finally have "2 ^ (Suc k + 52) \<le> a" by (simp only: add_Suc power_Suc)
    moreover have "a < 2 * 2 ^ (k + 53)"
      using hi unfolding k_def [symmetric] by arith
    then have "a < 2 ^ (Suc k + 53)" by (simp only: add_Suc power_Suc)
    ultimately show ?thesis unfolding unfold k_def [symmetric] by (rule conjI)
  qed
qed

lemma int_to_float_exact: "\<bar>i\<bar> < 2 ^ 53 \<Longrightarrow> int_to_float i = Inr (real_of_int i)"
  by (simp add: int_to_float_def nat_less_iff)

lemma int_to_float_overflow:
  assumes "2 ^ 1024 \<le> \<bar>i\<bar>"
  shows "int_to_float i = Inl OverflowError"
proof -
  define a where "a = nat \<bar>i\<bar>"
  define e where "e = float_shift a"
  define q where "q = a div 2 ^ e"
  from assms have a: "2 ^ 1024 \<le> a"
    by (simp add: a_def le_nat_iff)
  have "(2::nat) ^ 53 \<le> 2 ^ 1024" by (rule power_increasing) simp_all
  with a have big: "2 ^ 53 \<le> a" by (rule order_trans [rotated])
  from float_shift_bounds [OF big] have lo: "2 ^ (52 + e) \<le> a" and hi: "a < 2 ^ (53 + e)"
    by (simp_all add: e_def add.commute)
  from a hi have "(2::nat) ^ 1024 < 2 ^ (53 + e)" by (rule le_less_trans)
  have "1024 < 53 + e"
  proof (rule power_less_imp_less_exp)
    show "(1::nat) < 2" by simp
    show "(2::nat) ^ 1024 < 2 ^ (53 + e)" by fact
  qed
  then have e: "1024 \<le> 52 + e" by simp
  from lo have "2 ^ 52 * 2 ^ e \<le> a" by (simp add: power_add)
  then have "2 ^ 52 \<le> q" by (simp add: q_def less_eq_div_iff_mult_less_eq)
  then have "2 ^ 52 * 2 ^ e \<le> q * 2 ^ e" by (rule mult_le_mono1)
  moreover have "(2::nat) ^ 1024 \<le> 2 ^ (52 + e)"
    using e by (rule power_increasing) simp
  then have "(2::nat) ^ 1024 \<le> 2 ^ 52 * 2 ^ e" by (simp only: power_add)
  ultimately have m: "2 ^ 1024 \<le> q * 2 ^ e" by (rule order_trans [rotated])
  have m': "2 ^ 1024 \<le> (q + 1) * 2 ^ e"
    using m by (simp add: add_mult_distrib)
  from big have "\<not> a < 2 ^ 53" by simp
  with m m' show ?thesis
    unfolding int_to_float_def Let_def a_def [symmetric] e_def [symmetric] q_def [symmetric]
    by (simp del: power_numeral)
qed

lemma int_to_float_rounds: "int_to_float 9007199254740993 = Inr 9007199254740992"
  by (simp add: int_to_float_def float_shift.simps)

subsection \<open>What the loops compute\<close>

lemma make_similarity_loc:
  "loc_count r1 = loc_count r2 \<Longrightarrow> make_similarity p path r1 k v = make_similarity p path r2 k v"
  by (cases v) (auto split: sum.splits)

lemma make_similarity_Inr:
  assumes "make_similarity p path report k v = Inr s"
  shows "source_file s = path \<and> source_loc s = loc_count report \<and> target_file s = k \<and>
     (case v of
        PDict n \<Rightarrow>
          similarity_percentage s = dict_get n ''Similarity'' (PFloat 0) \<and>
          target_loc s = dict_get n ''#LoC'' PNone
      | _ \<Rightarrow> (\<exists>x. py_float p v = Inr x \<and> similarity_percentage s = PFloat x))"
  using assms by (cases v) (auto split: sum.splits)

lemma filter_absent_key:
  "map_of items k = None \<Longrightarrow> filter (\<lambda>(k', v). k' \<noteq> k) items = items"
  by (induction items) (auto split: if_splits)

lemma similarities_loop_Inr:
  assumes "similarities_loop p path report items = Inr report'"
  shows "file_path report' = file_path report \<and> loc_count report' = loc_count report \<and>
     (\<exists>new. similarities report' = similarities report @ new \<and>
        list_all2 (\<lambda>(k, v) s. make_similarity p path report k v = Inr s) items new)"
  using assms
proof (induction items arbitrary: report)
  case Nil
  then show ?case by simp
next
  case (Cons item rest)
  obtain k v where item: "item = (k, v)" by (cases item)
  from Cons.prems item obtain s where
    s: "make_similarity p path report k v = Inr s" and
    loop: "similarities_loop p path (add_similarity report s) rest = Inr report'"
    by (auto split: sum.splits)
  have loc: "loc_count (add_similarity report s) = loc_count report"
    by (simp add: add_similarity_def)
  from Cons.IH [OF loop] obtain new where
    fp: "file_path report' = file_path (add_similarity report s)" and
    lc: "loc_count report' = loc_count (add_similarity report s)" and
    new: "similarities report' = similarities (add_similarity report s) @ new" and
    all: "list_all2 (\<lambda>(k, v) s'. make_similarity p path (add_similarity report s) k v = Inr s') rest new"
    by blast
  have all': "list_all2 (\<lambda>(k, v) s'. make_similarity p path report k v = Inr s') rest new"
    using all make_similarity_loc [OF loc] by simp
  have "similarities report' = similarities report @ (s # new)"
    using new by (simp add: add_similarity_def)
  moreover have "list_all2 (\<lambda>(k, v) s'. make_similarity p path report k v = Inr s') (item # rest) (s # new)"
    using all' s item by simp
  ultimately show ?case
    using fp lc by (simp add: add_similarity_def)
qed

lemma extract_loc_dict:
  "extract_loc enabled report entry = (report', PDict items') \<Longrightarrow>
   \<exists>items. entry = PDict items \<and> items' = similarity_items enabled entry \<and>
     report' = report\<lparr>loc_count :=
        (if enabled then dict_get items ''#LoC'' (loc_count report) else loc_count report)\<rparr>"
  by (cases entry) (auto simp: dict_get_def filter_absent_key split: option.splits if_splits)

lemma process_file_Inr:
  assumes "process_file p self path entry = Inr rep"
  shows "\<exists>items. entry = PDict items \<and> file_path rep = path \<and>
     loc_count rep = (if show_loc self then dict_get items ''#LoC'' PNone else PNone) \<and>
     list_all2 (\<lambda>(k, v) s. make_similarity p path rep k v = Inr s)
       (similarity_items (show_loc self) entry) (similarities rep)"
proof -
  let ?init = "\<lparr>file_path = path, similarities = [], loc_count = PNone\<rparr>"
  obtain report' v' where ex: "extract_loc (show_loc self) ?init entry = (report', v')"
    by (cases "extract_loc (show_loc self) ?init entry")
  from assms ex obtain items' where v': "v' = PDict items'"
    and loop: "similarities_loop p path report' items' = Inr rep"
    by (cases v') (simp_all add: process_file_def)
  from extract_loc_dict [OF ex [unfolded v']] obtain items where
    entry: "entry = PDict items" and items': "items' = similarity_items (show_loc self) entry" and
    report': "report' = ?init\<lparr>loc_count :=
        (if show_loc self then dict_get items ''#LoC'' (loc_count ?init) else loc_count ?init)\<rparr>"
    by blast
  from similarities_loop_Inr [OF loop] obtain new where
    fp: "file_path rep = file_path report'" and lc: "loc_count rep = loc_count report'" and
    new: "similarities rep = similarities report' @ new" and
    all: "list_all2 (\<lambda>(k, v) s. make_similarity p path report' k v = Inr s) items' new"
    by blast
  have "list_all2 (\<lambda>(k, v) s. make_similarity p path rep k v = Inr s) items' new"
    using all make_similarity_loc [OF lc] by simp
  then show ?thesis
    using entry items' report' fp lc new by simp
qed

lemma process_file_nonempty:
  assumes "process_file p self path entry = Inr rep"
  shows "(similarity_items (show_loc self) entry \<noteq> []) = (similarities rep \<noteq> [])"
proof -
  from process_file_Inr [OF assms] have
    "list_all2 (\<lambda>(k, v) s. make_similarity p path rep k v = Inr s)
       (similarity_items (show_loc self) entry) (similarities rep)"
    by blast
  then have "length (similarity_items (show_loc self) entry) = length (similarities rep)"
    by (rule list_all2_lengthD)
  then show ?thesis by auto
qed

lemma reports_loop_Inr:
  assumes "reports_loop p self acc d = Inr out"
  shows "\<exists>built. list_all2 (\<lambda>(path, entry) rep. process_file p self path entry = Inr rep) d built \<and>
     out = acc @ filter (\<lambda>rep. similarities rep \<noteq> []) built"
  using assms
proof (induction d arbitrary: acc)
  case Nil
  then show ?case by simp
next
  case (Cons item rest)
  obtain path entry where item: "item = (path, entry)" by (cases item)
  from Cons.prems item obtain rep where
    rep: "process_file p self path entry = Inr rep" and
    loop: "reports_loop p self (if similarities rep \<noteq> [] then acc @ [rep] else acc) rest = Inr out"
    by (auto split: sum.splits)
  from Cons.IH [OF loop] obtain built where
    all: "list_all2 (\<lambda>(path, entry) rep. process_file p self path entry = Inr rep) rest built" and
    out: "out = (if similarities rep \<noteq> [] then acc @ [rep] else acc) @ filter (\<lambda>rep. similarities rep \<noteq> []) built"
    by blast
  have "list_all2 (\<lambda>(path, entry) rep. process_file p self path entry = Inr rep) (item # rest) (rep # built)"
    using all rep item by simp
  moreover have "out = acc @ filter (\<lambda>rep. similarities rep \<noteq> []) (rep # built)"
    using out by simp
  ultimately show ?case by blast
qed

text \<open>Facts about lists related element by element.\<close>

lemma list_all2_filter_both:
  "list_all2 R xs ys \<Longrightarrow> (\<And>x y. R x y \<Longrightarrow> P x = Q y) \<Longrightarrow>
   list_all2 R (filter P xs) (filter Q ys)"
  by (induction rule: list_all2_induct) auto

lemma list_all2_map_eq:
  "list_all2 (\<lambda>x y. f x = g y) xs ys \<Longrightarrow> map f xs = map g ys"
  by (induction rule: list_all2_induct) auto

lemma list_all2_right_elem:
  "list_all2 R xs ys \<Longrightarrow> y \<in> set ys \<Longrightarrow> \<exists>x\<in>set xs. R x y"
  by (induction rule: list_all2_induct) auto

text \<open>
  The reports of a result are the reports of those items of \<^verbatim>\<open>raw_data\<close> that have a
  similarity, in the order of \<^verbatim>\<open>raw_data\<close>.
\<close>

lemma process_result_reports:
  assumes "process_result p self rc d = Inr r"
  shows "list_all2 (\<lambda>(path, entry) rep. process_file p self path entry = Inr rep)
           (filter (\<lambda>(path, entry). similarity_items (show_loc self) entry \<noteq> []) d) (reports r)"
    and "raw_data r = d" and "return_code r = rc"
proof -
  from assms obtain out where loop: "reports_loop p self [] d = Inr out"
    and r: "r = \<lparr>return_code = rc, reports = out, raw_data = d\<rparr>"
    by (auto simp: process_result_def split: sum.splits)
  from reports_loop_Inr [OF loop] obtain built where
    all: "list_all2 (\<lambda>(path, entry) rep. process_file p self path entry = Inr rep) d built" and
    out: "out = filter (\<lambda>rep. similarities rep \<noteq> []) built"
    by auto
  have "list_all2 (\<lambda>(path, entry) rep. process_file p self path entry = Inr rep)
          (filter (\<lambda>(path, entry). similarity_items (show_loc self) entry \<noteq> []) d)
          (filter (\<lambda>rep. similarities rep \<noteq> []) built)"
    using all by (rule list_all2_filter_both) (auto dest: process_file_nonempty)
  then show "list_all2 (\<lambda>(path, entry) rep. process_file p self path entry = Inr rep)
           (filter (\<lambda>(path, entry). similarity_items (show_loc self) entry \<noteq> []) d) (reports r)"
    using r out by simp
  show "raw_data r = d" and "return_code r = rc" using r by simp_all
qed

lemma sample_run: "process_result Map.empty default_detector SUCCESS sample_raw = Inr sample_result"
  by (simp add: process_result_def process_file_def add_similarity_def dict_get_def
      default_detector_def sample_raw_def sample_result_def sample_reports_def)

lemma plain_run: "process_result Map.empty default_detector SUCCESS plain_raw = Inr plain_result"
  by (simp add: process_result_def process_file_def add_similarity_def dict_get_def
      default_detector_def plain_raw_def plain_result_def int_to_float_rounds
      int_to_float_exact)

subsection \<open>The claims\<close>

text \<open>
  Claim C3, as amended. Whenever \<^verbatim>\<open>_process_result\<close> returns, no report of the result
  has an empty list of similarities, and the files with a report are exactly, and in this
  order, the files of \<^verbatim>\<open>raw_data\<close> whose mapping yields at least one similarity.
  In particular, when \<^verbatim>\<open>show_loc\<close> is set, a file whose mapping holds the key
  \<^verbatim>\<open>"#LoC"\<close> alone has no report.
\<close>

theorem no_empty_report:
  assumes "process_result p self rc d = Inr r"
  shows "list_all (\<lambda>rep. similarities rep \<noteq> []) (reports r) \<and>
     map file_path (reports r) =
       map fst (filter (\<lambda>(path, entry). similarity_items (show_loc self) entry \<noteq> []) d) \<and>
     (show_loc self \<and> distinct (map fst d) \<and> (path, PDict [(''#LoC'', v)]) \<in> set d
        \<longrightarrow> path \<notin> set (map file_path (reports r)))"
proof -
  let ?kept = "filter (\<lambda>(path, entry). similarity_items (show_loc self) entry \<noteq> []) d"
  note rel = process_result_reports(1) [OF assms]
  have nonempty: "list_all (\<lambda>rep. similarities rep \<noteq> []) (reports r)"
    unfolding list_all_iff
  proof
    fix rep assume "rep \<in> set (reports r)"
    from list_all2_right_elem [OF rel this] obtain path' entry where
      "(path', entry) \<in> set ?kept" and "process_file p self path' entry = Inr rep"
      by auto
    then show "similarities rep \<noteq> []"
      using process_file_nonempty by auto
  qed
  have "list_all2 (\<lambda>x rep. fst x = file_path rep) ?kept (reports r)"
    using rel by (rule list_all2_mono) (auto dest: process_file_Inr)
  then have paths: "map file_path (reports r) = map fst ?kept"
    by (rule list_all2_map_eq [symmetric])
  have "path \<notin> set (map file_path (reports r))"
    if "show_loc self" and dist: "distinct (map fst d)" and mem: "(path, PDict [(''#LoC'', v)]) \<in> set d"
  proof
    assume "path \<in> set (map file_path (reports r))"
    then obtain entry where kept: "(path, entry) \<in> set d"
      and items: "similarity_items (show_loc self) entry \<noteq> []"
      unfolding paths by auto
    from dist kept mem have "entry = PDict [(''#LoC'', v)]"
      by (meson eq_key_imp_eq_value)
    with items that(1) show False by simp
  qed
  with nonempty paths show ?thesis by blast
qed

theorem no_empty_report_witness:
  "process_result Map.empty default_detector SUCCESS sample_raw = Inr sample_result \<and>
   show_loc default_detector \<and> distinct (map fst sample_raw) \<and>
   (''c.py'', PDict [(''#LoC'', PInt 3)]) \<in> set sample_raw \<and>
   list_all (\<lambda>rep. similarities rep \<noteq> []) (reports sample_result) \<and>
   map file_path (reports sample_result) = [''a.py'', ''b.py'', ''d.py''] \<and>
   ''c.py'' \<notin> set (map file_path (reports sample_result))"
proof -
  have hyps: "show_loc default_detector \<and> distinct (map fst sample_raw) \<and>
      (''c.py'', PDict [(''#LoC'', PInt 3)]) \<in> set sample_raw"
    by (simp add: default_detector_def sample_raw_def)
  have paths: "map fst (filter (\<lambda>(path, entry). similarity_items (show_loc default_detector) entry \<noteq> [])
      sample_raw) = [''a.py'', ''b.py'', ''d.py'']"
    by (simp add: default_detector_def sample_raw_def)
  from no_empty_report [OF sample_run, of "''c.py''" "PInt 3"] hyps paths sample_run
  show ?thesis by simp
qed

text \<open>
  The claim as first stated gave the last sentence for every detector. A detector built
  with \<^verbatim>\<open>show_loc=False\<close> reads the key \<^verbatim>\<open>"#LoC"\<close> as a target file: the mapping
  \<^verbatim>\<open>{"a.py": {"#LoC": 10}}\<close> gives a report for \<^verbatim>\<open>a.py\<close>, with one similarity of
  10 per cent to the file \<^verbatim>\<open>"#LoC"\<close>.
\<close>

theorem loc_only_entry_without_show_loc:
  "process_result Map.empty (default_detector\<lparr>show_loc := False\<rparr>) SUCCESS
     [(''a.py'', PDict [(''#LoC'', PInt 10)])] =
   Inr \<lparr>return_code = SUCCESS,
        reports =
          [\<lparr>file_path = ''a.py'',
            similarities =
              [\<lparr>source_file = ''a.py'', target_file = ''#LoC'',
                 similarity_percentage = PFloat 10, source_loc = PNone, target_loc = PNone\<rparr>],
            loc_count = PNone\<rparr>],
        raw_data = [(''a.py'', PDict [(''#LoC'', PInt 10)])]\<rparr>"
  by (simp add: process_result_def process_file_def add_similarity_def default_detector_def
      int_to_float_exact)

text \<open>
  Claim C4. With \<^verbatim>\<open>show_loc\<close> set, each report belongs to one item of \<^verbatim>\<open>raw_data\<close>,
  whose value is a mapping: the report's \<^verbatim>\<open>loc_count\<close> is the value at the key
  \<^verbatim>\<open>"#LoC"\<close> (\<^verbatim>\<open>None\<close> when there is no such key), and its similarities are, in
  order, those of the remaining keys. The similarity of a key has the key as
  \<^verbatim>\<open>target_file\<close>; for a mapping, its percentage is the value at \<^verbatim>\<open>"Similarity"\<close>
  (0.0 without that key) and its \<^verbatim>\<open>target_loc\<close> the value at \<^verbatim>\<open>"#LoC"\<close>; for any
  other value, its percentage is the value converted by \<^verbatim>\<open>float\<close>, so an integer
  beyond \<open>2^53\<close> is stored rounded.
\<close>

theorem loc_and_similarities_decoded:
  assumes "show_loc self" and "process_result p self rc d = Inr r"
  shows "list_all2
     (\<lambda>(path, entry) rep. file_path rep = path \<and>
        (\<exists>items. entry = PDict items \<and>
           loc_count rep = dict_get items ''#LoC'' PNone \<and>
           list_all2
             (\<lambda>(k, v) s. target_file s = k \<and>
                (case v of
                   PDict n \<Rightarrow>
                     similarity_percentage s = dict_get n ''Similarity'' (PFloat 0) \<and>
                     target_loc s = dict_get n ''#LoC'' PNone
                 | _ \<Rightarrow> (\<exists>x. py_float p v = Inr x \<and> similarity_percentage s = PFloat x)))
             (filter (\<lambda>(k, v). k \<noteq> ''#LoC'') items) (similarities rep)))
     (filter (\<lambda>(path, entry). similarity_items True entry \<noteq> []) d) (reports r)"
proof -
  have step: "file_path rep = path \<and>
        (\<exists>items. entry = PDict items \<and>
           loc_count rep = dict_get items ''#LoC'' PNone \<and>
           list_all2
             (\<lambda>(k, v) s. target_file s = k \<and>
                (case v of
                   PDict n \<Rightarrow>
                     similarity_percentage s = dict_get n ''Similarity'' (PFloat 0) \<and>
                     target_loc s = dict_get n ''#LoC'' PNone
                 | _ \<Rightarrow> (\<exists>x. py_float p v = Inr x \<and> similarity_percentage s = PFloat x)))
             (filter (\<lambda>(k, v). k \<noteq> ''#LoC'') items) (similarities rep))"
    if run: "process_file p self path entry = Inr rep" for path entry rep
  proof -
    from process_file_Inr [OF run] assms(1) obtain items where
      entry: "entry = PDict items" and fp: "file_path rep = path" and
      lc: "loc_count rep = dict_get items ''#LoC'' PNone" and
      all: "list_all2 (\<lambda>(k, v) s. make_similarity p path rep k v = Inr s)
         (filter (\<lambda>(k, v). k \<noteq> ''#LoC'') items) (similarities rep)"
      by auto
    have "list_all2
             (\<lambda>(k, v) s. target_file s = k \<and>
                (case v of
                   PDict n \<Rightarrow>
                     similarity_percentage s = dict_get n ''Similarity'' (PFloat 0) \<and>
                     target_loc s = dict_get n ''#LoC'' PNone
                 | _ \<Rightarrow> (\<exists>x. py_float p v = Inr x \<and> similarity_percentage s = PFloat x)))
             (filter (\<lambda>(k, v). k \<noteq> ''#LoC'') items) (similarities rep)"
      using all by (rule list_all2_mono) (auto dest: make_similarity_Inr)
    with entry fp lc show ?thesis by blast
  qed
  from process_result_reports(1) [OF assms(2)] assms(1) have
    "list_all2 (\<lambda>(path, entry) rep. process_file p self path entry = Inr rep)
       (filter (\<lambda>(path, entry). similarity_items True entry \<noteq> []) d) (reports r)"
    by simp
  then show ?thesis
    by (rule list_all2_mono) (use step in auto)
qed

theorem loc_and_similarities_decoded_witness:
  "show_loc default_detector \<and>
   process_result Map.empty default_detector SUCCESS plain_raw = Inr plain_result \<and>
   list_all2
     (\<lambda>(path, entry) rep. file_path rep = path \<and>
        (\<exists>items. entry = PDict items \<and>
           loc_count rep = dict_get items ''#LoC'' PNone \<and>
           list_all2
             (\<lambda>(k, v) s. target_file s = k \<and>
                (case v of
                   PDict n \<Rightarrow>
                     similarity_percentage s = dict_get n ''Similarity'' (PFloat 0) \<and>
                     target_loc s = dict_get n ''#LoC'' PNone
                 | _ \<Rightarrow> (\<exists>x. py_float Map.empty v = Inr x \<and> similarity_percentage s = PFloat x)))
             (filter (\<lambda>(k, v). k \<noteq> ''#LoC'') items) (similarities rep)))
     (filter (\<lambda>(path, entry). similarity_items True entry \<noteq> []) plain_raw)
     (reports plain_result)"
proof -
  have enabled: "show_loc default_detector"
    by (simp add: default_detector_def)
  show ?thesis
    using enabled plain_run loc_and_similarities_decoded [OF enabled plain_run]
    by (intro conjI)
qed

text \<open>
  Claim C10. In a result built by \<^verbatim>\<open>_process_result\<close>, every similarity of a report
  has the report's \<^verbatim>\<open>file_path\<close> as \<^verbatim>\<open>source_file\<close> and the report's
  \<^verbatim>\<open>loc_count\<close> as \<^verbatim>\<open>source_loc\<close>.
\<close>

theorem source_fields_of_report:
  assumes "process_result p self rc d = Inr r"
  shows "\<forall>rep\<in>set (reports r). \<forall>s\<in>set (similarities rep).
     source_file s = file_path rep \<and> source_loc s = loc_count rep"
proof (intro ballI)
  fix rep s
  assume rep: "rep \<in> set (reports r)" and s: "s \<in> set (similarities rep)"
  from list_all2_right_elem [OF process_result_reports(1) [OF assms] rep] obtain path entry where
    run: "process_file p self path entry = Inr rep"
    by auto
  from process_file_Inr [OF run] have fp: "file_path rep = path" and
    all: "list_all2 (\<lambda>(k, v) s. make_similarity p path rep k v = Inr s)
       (similarity_items (show_loc self) entry) (similarities rep)"
    by auto
  from list_all2_right_elem [OF all s] obtain k v where
    "make_similarity p path rep k v = Inr s"
    by auto
  from make_similarity_Inr [OF this] fp
  show "source_file s = file_path rep \<and> source_loc s = loc_count rep"
    by simp
qed

theorem source_fields_of_report_witness:
  "process_result Map.empty default_detector SUCCESS sample_raw = Inr sample_result \<and>
   list_all (\<lambda>rep. list_all (\<lambda>s. source_file s = file_path rep \<and> source_loc s = loc_count rep)
                       (similarities rep))
     (reports sample_result)"
  using sample_run source_fields_of_report [OF sample_run]
  by (simp add: list_all_iff)

section \<open>Properties of the module on the store\<close>

subsection \<open>Only new objects are written\<close>

lemma extends_refl: "extends st st"
  by (simp add: extends_def)

lemma extends_trans: "extends st1 st2 \<Longrightarrow> extends st2 st3 \<Longrightarrow> extends st1 st3"
  by (auto simp: extends_def)

lemma alloc_extends: "alloc st v = (a, st') \<Longrightarrow> extends st st' \<and> a = next_free st"
  by (auto simp: alloc_def extends_def)

lemma alloc_store_ok:
  assumes "store_ok st" and "alloc st v = (a, st')"
  shows "store_ok st'"
  using assms by (auto simp: alloc_def store_ok_def)

lemma list_append_fresh:
  assumes "next_free st0 \<le> l" and "extends st0 st" and "list_append st l x = (res, st')"
  shows "extends st0 st'"
  using assms by (auto simp: list_append_def extends_def split: obj.splits)

lemma append_each_st_fresh:
  assumes "next_free st0 \<le> critical" and "extends st0 st"
    and "append_each_st st critical xs = (res, st')"
  shows "extends st0 st'"
  using assms
proof (induction xs arbitrary: st)
  case Nil
  then show ?case by simp
next
  case (Cons x xs)
  obtain res1 st1 where step: "list_append st critical x = (res1, st1)"
    by (cases "list_append st critical x")
  from list_append_fresh [OF Cons.prems(1,2) step] have ext: "extends st0 st1" .
  show ?case
  proof (cases res1)
    case (Inl e)
    with Cons.prems(3) step ext show ?thesis by simp
  next
    case (Inr u)
    with Cons.prems(3) step have "append_each_st st1 critical xs = (res, st')" by simp
    from Cons.IH [OF Cons.prems(1) ext this] show ?thesis .
  qed
qed

lemma get_high_similarities_st_extends:
  assumes "get_high_similarities_st st self t = (res, st')"
  shows "extends st st'"
  using assms
  by (auto simp: get_high_similarities_st_def extends_refl alloc_def extends_def
      split: obj.splits sum.splits)

lemma critical_loop_st_fresh:
  assumes "next_free st0 \<le> critical" and "extends st0 st"
    and "critical_loop_st st critical rs t = (res, st')"
  shows "extends st0 st'"
  using assms
proof (induction rs arbitrary: st)
  case Nil
  then show ?case by simp
next
  case (Cons rep rs)
  obtain res1 st1 where high: "get_high_similarities_st st rep t = (res1, st1)"
    by (cases "get_high_similarities_st st rep t")
  from get_high_similarities_st_extends [OF high] Cons.prems(2)
  have ext1: "extends st0 st1" by (rule extends_trans [rotated])
  show ?case
  proof (cases res1)
    case (Inl e)
    with Cons.prems(3) high ext1 show ?thesis by simp
  next
    case (Inr h)
    show ?thesis
    proof (cases "cell st1 h")
      case (ListObj hs)
      obtain res2 st2 where app: "append_each_st st1 critical hs = (res2, st2)"
        by (cases "append_each_st st1 critical hs")
      from append_each_st_fresh [OF Cons.prems(1) ext1 app] have ext2: "extends st0 st2" .
      show ?thesis
      proof (cases res2)
        case (Inl e)
        with Cons.prems(3) high Inr ListObj app ext2 show ?thesis by simp
      next
        case (Inr u)
        with Cons.prems(3) high \<open>res1 = Inr h\<close> ListObj app
        have "critical_loop_st st2 critical rs t = (res, st')" by simp
        from Cons.IH [OF Cons.prems(1) ext2 this] show ?thesis .
      qed
    qed (use Cons.prems(3) high Inr ext1 in auto)
  qed
qed

lemma get_critical_duplications_st_extends:
  assumes "get_critical_duplications_st st self t = (res, st')"
  shows "extends st st'"
proof -
  obtain c st1 where al: "alloc st (ListObj []) = (c, st1)"
    by (cases "alloc st (ListObj [])")
  from alloc_extends [OF al] have ext1: "extends st st1" and c: "next_free st \<le> c"
    by simp_all
  show ?thesis
  proof (cases "cell st1 self")
    case (DetectionResultObj code reps raw)
    show ?thesis
    proof (cases "cell st1 reps")
      case (ListObj rs)
      obtain res2 st2 where loop: "critical_loop_st st1 c rs t = (res2, st2)"
        by (cases "critical_loop_st st1 c rs t")
      from critical_loop_st_fresh [OF c ext1 loop] have "extends st st2" .
      with assms al DetectionResultObj ListObj loop show ?thesis
        by (cases res2) (simp_all add: get_critical_duplications_st_def)
    qed (use assms al DetectionResultObj ext1 in \<open>auto simp: get_critical_duplications_st_def\<close>)
  qed (use assms al ext1 in \<open>auto simp: get_critical_duplications_st_def\<close>)
qed

subsection \<open>What is read from the store stays\<close>

lemma cell_kept:
  assumes "store_ok st" and "extends st st'" and "cell st a \<noteq> NoObject"
  shows "cell st' a = cell st a"
proof -
  from assms(1,3) have "a < next_free st"
    by (auto simp: store_ok_def not_le [symmetric])
  with assms(2) show ?thesis by (simp add: extends_def)
qed

lemma those_map_cong:
  assumes "those (map f xs) = Some ys" and "\<And>x y. f x = Some y \<Longrightarrow> g x = Some y"
  shows "those (map g xs) = Some ys"
  using assms(1)
proof (induction xs arbitrary: ys)
  case Nil
  then show ?case by simp
next
  case (Cons x xs)
  from Cons.prems obtain y rest where y: "f x = Some y" and rest: "those (map f xs) = Some rest"
    and ys: "ys = y # rest"
    by (auto split: option.splits)
  from assms(2) [OF y] Cons.IH [OF rest] ys show ?case by simp
qed

lemma view_items_cong:
  assumes "view_items f items = Some vs" and "\<And>s v. f s = Some v \<Longrightarrow> g s = Some v"
  shows "view_items g items = Some vs"
  using assms(1) unfolding view_items_def
  by (rule those_map_cong) (auto dest: assms(2))

lemma view_field_kept:
  assumes "store_ok st" and "extends st st'" and "view_field st s = Some v"
  shows "view_field st' s = Some v"
proof (cases s)
  case (Val w)
  with assms(3) show ?thesis by simp
next
  case (Ref a)
  with assms(3) have "cell st a \<noteq> NoObject" by auto
  from cell_kept [OF assms(1,2) this] assms(3) Ref show ?thesis by simp
qed

lemma view_entry_kept:
  assumes "store_ok st" and "extends st st'" and "view_entry st s = Some v"
  shows "view_entry st' s = Some v"
proof (cases s)
  case (Val w)
  with assms(3) show ?thesis by simp
next
  case (Ref a)
  with assms(3) obtain items vs where c: "cell st a = DictObj items"
    and vs: "view_items (view_field st) items = Some vs" and v: "v = PDict vs"
    by (auto split: obj.splits)
  from vs have "view_items (view_field st') items = Some vs"
    by (rule view_items_cong) (rule view_field_kept [OF assms(1,2)])
  with cell_kept [OF assms(1,2), of a] c v Ref show ?thesis by simp
qed

lemma view_raw_kept:
  assumes "store_ok st" and "extends st st'" and "view_raw st a = Some d"
  shows "view_raw st' a = Some d"
proof -
  from assms(3) obtain items where c: "cell st a = DictObj items"
    and d: "view_items (view_entry st) items = Some d"
    by (auto simp: view_raw_def split: obj.splits)
  from d have "view_items (view_entry st') items = Some d"
    by (rule view_items_cong) (rule view_entry_kept [OF assms(1,2)])
  with cell_kept [OF assms(1,2), of a] c show ?thesis
    by (simp add: view_raw_def)
qed

lemma view_similarity_obj_kept:
  assumes "store_ok st" and "extends st st'" and "view_similarity_obj st ob = Some s"
  shows "view_similarity_obj st' ob = Some s"
proof (cases ob)
  case (FileSimilarityObj src tgt pct sloc tloc)
  with assms(3) obtain p sv tv where "view_field st pct = Some p"
    and "view_field st sloc = Some sv" and "view_field st tloc = Some tv"
    and "s = \<lparr>source_file = src, target_file = tgt, similarity_percentage = p,
                source_loc = sv, target_loc = tv\<rparr>"
    by (auto split: option.splits)
  with view_field_kept [OF assms(1,2)] FileSimilarityObj show ?thesis
    by simp
qed (use assms(3) in simp_all)

lemma view_similarity_kept:
  assumes "store_ok st" and "extends st st'" and "view_similarity st a = Some s"
  shows "view_similarity st' a = Some s"
proof -
  from assms(3) have "cell st a \<noteq> NoObject"
    by (auto simp: view_similarity_def)
  from cell_kept [OF assms(1,2) this] view_similarity_obj_kept [OF assms(1,2)] assms(3)
  show ?thesis by (simp add: view_similarity_def)
qed

lemma view_similarities_kept:
  assumes "store_ok st" and "extends st st'" and "view_similarities st a = Some ss"
  shows "view_similarities st' a = Some ss"
proof -
  from assms(3) obtain xs where xs: "cell st a = ListObj xs"
    and ss: "those (map (view_similarity st) xs) = Some ss"
    by (auto simp: view_similarities_def split: obj.splits)
  from ss have "those (map (view_similarity st') xs) = Some ss"
    by (rule those_map_cong) (rule view_similarity_kept [OF assms(1,2)])
  with cell_kept [OF assms(1,2), of a] xs show ?thesis
    by (simp add: view_similarities_def)
qed

lemma view_report_kept:
  assumes "store_ok st" and "extends st st'" and "view_report st a = Some rep"
  shows "view_report st' a = Some rep"
proof -
  from assms(3) obtain path sims loc ss l where c: "cell st a = SimilarityReportObj path sims loc"
    and ss: "view_similarities st sims = Some ss" and l: "view_field st loc = Some l"
    and rep: "rep = \<lparr>file_path = path, similarities = ss, loc_count = l\<rparr>"
    by (auto simp: view_report_def split: obj.splits option.splits)
  from view_similarities_kept [OF assms(1,2) ss] view_field_kept [OF assms(1,2) l]
    cell_kept [OF assms(1,2), of a] c rep
  show ?thesis by (simp add: view_report_def)
qed

lemma view_result_kept:
  assumes "store_ok st" and "extends st st'" and "view_result st a = Some r"
  shows "view_result st' a = Some r"
proof -
  from assms(3) obtain code reps raw rs built d where c: "cell st a = DetectionResultObj code reps raw"
    and l: "cell st reps = ListObj rs"
    and built: "those (map (view_report st) rs) = Some built"
    and d: "view_raw st raw = Some d"
    and r: "r = \<lparr>return_code = code, reports = built, raw_data = d\<rparr>"
    by (auto simp: view_result_def split: obj.splits option.splits)
  from built have "those (map (view_report st') rs) = Some built"
    by (rule those_map_cong) (rule view_report_kept [OF assms(1,2)])
  with cell_kept [OF assms(1,2), of a] cell_kept [OF assms(1,2), of reps] c l r
    view_raw_kept [OF assms(1,2) d]
  show ?thesis by (simp add: view_result_def)
qed

subsection \<open>Building the result writes only to new objects\<close>

lemma list_append_cells:
  assumes "list_append st l x = (res, st')"
  shows "next_free st' = next_free st" and "a \<noteq> l \<Longrightarrow> cell st' a = cell st a"
  using assms by (auto simp: list_append_def split: obj.splits)

lemma list_append_Inr:
  assumes "cell st l = ListObj xs"
  shows "list_append st l x = (Inr (), st\<lparr>cell := (cell st)(l := ListObj (xs @ [x]))\<rparr>)"
  using assms by (simp add: list_append_def)

lemma list_append_kind:
  assumes "list_append st l x = (res, st')"
  shows "(\<exists>xs. cell st l = ListObj xs) \<or> st' = st"
  using assms by (auto simp: list_append_def split: obj.splits)

lemma similarities_loop_st_fresh:
  assumes "extends st0 st" and "cell st report = SimilarityReportObj fp sims loc"
    and "report < next_free st" and "next_free st0 \<le> sims"
    and "similarities_loop_st p st path report items = (res, st')"
  shows "extends st0 st'"
  using assms(1,2,3,5)
proof (induction items arbitrary: st)
  case Nil
  then show ?case by simp
next
  case (Cons item rest)
  obtain target sd where item: "item = (target, sd)" by (cases item)
  show ?case
  proof (cases "make_similarity_st p st path report target sd")
    case (Inl e)
    with Cons.prems item show ?thesis by simp
  next
    case (Inr made)
    obtain x st1 where al: "alloc st made = (x, st1)" by (cases "alloc st made")
    from alloc_extends [OF al] Cons.prems(1) have ext1: "extends st0 st1"
      by (auto intro: extends_trans)
    from al Cons.prems(2,3) have rep1: "cell st1 report = SimilarityReportObj fp sims loc"
      and lt1: "report < next_free st1"
      by (auto simp: alloc_def)
    obtain res2 st2 where app: "list_append st1 sims x = (res2, st2)"
      by (cases "list_append st1 sims x")
    from list_append_fresh [OF assms(4) ext1 app] have ext2: "extends st0 st2" .
    have ne: "sims \<noteq> report \<or> st2 = st1"
      using list_append_kind [OF app] rep1 by auto
    then have rep2: "cell st2 report = SimilarityReportObj fp sims loc"
      using list_append_cells(2) [OF app, of report] rep1 by auto
    have lt2: "report < next_free st2"
      using list_append_cells(1) [OF app] lt1 by simp
    have step: "similarities_loop_st p st path report (item # rest) =
        (case res2 of Inl e \<Rightarrow> (Inl e, st2) | Inr u \<Rightarrow> similarities_loop_st p st2 path report rest)"
      using item Inr al app rep1 by (simp add: add_similarity_st_def split: sum.splits)
    show ?thesis
    proof (cases res2)
      case (Inl e)
      with step Cons.prems(4) ext2 show ?thesis by simp
    next
      case (Inr u)
      with step Cons.prems(4) have "similarities_loop_st p st2 path report rest = (res, st')"
        by simp
      from Cons.IH [OF ext2 rep2 lt2 this] show ?thesis .
    qed
  qed
qed

lemma process_file_st_extends:
  assumes "process_file_st p self st path entry = (res, st')"
  shows "extends st st'"
proof -
  define sims where "sims = next_free st"
  define report where "report = Suc (next_free st)"
  define st1 where "st1 = snd (alloc st (ListObj []))"
  define st2 where "st2 = snd (alloc st1 (SimilarityReportObj path sims (Val PNone)))"
  have al1: "alloc st (ListObj []) = (sims, st1)"
    by (simp add: alloc_def sims_def st1_def)
  have al2: "alloc st1 (SimilarityReportObj path sims (Val PNone)) = (report, st2)"
    by (simp add: alloc_def report_def st1_def st2_def)
  have ext2: "extends st st2"
    using alloc_extends [OF al1] alloc_extends [OF al2] by (auto intro: extends_trans)
  have rep2: "cell st2 report = SimilarityReportObj path sims (Val PNone)"
    and lt2: "report < next_free st2"
    by (simp_all add: st2_def st1_def alloc_def report_def)
  show ?thesis
  proof (cases "dict_items st2 entry")
    case None
    with assms al1 al2 ext2 show ?thesis by (simp add: process_file_st_def)
  next
    case (Some items)
    obtain looped st3 where ex: "extract_loc_st (show_loc self) st2 report items = (looped, st3)"
      by (cases "extract_loc_st (show_loc self) st2 report items")
    have "\<exists>loc. extends st st3 \<and> cell st3 report = SimilarityReportObj path sims loc \<and>
        report < next_free st3"
    proof (cases "if show_loc self then map_of items ''#LoC'' else None")
      case None
      with ex have "st3 = st2" by (simp add: extract_loc_st_def)
      with ext2 rep2 lt2 show ?thesis by blast
    next
      case (Some loc)
      with ex have st3: "st3 = snd (alloc (set_loc_count st2 report loc)
          (DictObj (filter (\<lambda>(k, v). k \<noteq> ''#LoC'') items)))"
        by (simp add: extract_loc_st_def split: prod.splits)
      have "cell st3 report = SimilarityReportObj path sims loc" and "report < next_free st3"
        using rep2 lt2 by (simp_all add: st3 set_loc_count_def alloc_def)
      moreover have "extends st st3"
        using ext2 rep2 by (auto simp: st3 set_loc_count_def alloc_def extends_def report_def
            st2_def st1_def)
      ultimately show ?thesis by blast
    qed
    then obtain loc where ext3: "extends st st3"
      and rep3: "cell st3 report = SimilarityReportObj path sims loc"
      and lt3: "report < next_free st3"
      by blast
    obtain res4 st4 where loop: "similarities_loop_st p st3 path report looped = (res4, st4)"
      by (cases "similarities_loop_st p st3 path report looped")
    have "next_free st \<le> sims" by (simp add: sims_def)
    from similarities_loop_st_fresh [OF ext3 rep3 lt3 this loop] have "extends st st4" .
    with assms al1 al2 Some ex loop show ?thesis
      by (cases res4) (simp_all add: process_file_st_def)
  qed
qed

lemma reports_loop_st_fresh:
  assumes "next_free st0 \<le> reps" and "extends st0 st"
    and "reports_loop_st p self st reps items = (res, st')"
  shows "extends st0 st'"
  using assms(2,3)
proof (induction items arbitrary: st)
  case Nil
  then show ?case by simp
next
  case (Cons item rest)
  obtain path entry where item: "item = (path, entry)" by (cases item)
  obtain res1 st1 where turn: "process_file_st p self st path entry = (res1, st1)"
    by (cases "process_file_st p self st path entry")
  from process_file_st_extends [OF turn] Cons.prems(1) have ext1: "extends st0 st1"
    by (auto intro: extends_trans)
  show ?case
  proof (cases res1)
    case (Inl e)
    with Cons.prems(2) item turn ext1 show ?thesis by simp
  next
    case (Inr report)
    show ?thesis
    proof (cases "has_similarities_st st1 report")
      case (Inl e)
      with Cons.prems(2) item turn Inr ext1 show ?thesis by simp
    next
      case has: (Inr b)
      show ?thesis
      proof (cases b)
        case False
        with Cons.prems(2) item turn Inr has
        have "reports_loop_st p self st1 reps rest = (res, st')" by simp
        from Cons.IH [OF ext1 this] show ?thesis .
      next
        case True
        obtain res2 st2 where app: "list_append st1 reps report = (res2, st2)"
          by (cases "list_append st1 reps report")
        from list_append_fresh [OF assms(1) ext1 app] have ext2: "extends st0 st2" .
        show ?thesis
        proof (cases res2)
          case (Inl e)
          with Cons.prems(2) item turn Inr has True app ext2 show ?thesis by simp
        next
          case u: (Inr u)
          with Cons.prems(2) item turn Inr has True app
          have "reports_loop_st p self st2 reps rest = (res, st')" by simp
          from Cons.IH [OF ext2 this] show ?thesis .
        qed
      qed
    qed
  qed
qed

lemma process_result_st_extends:
  assumes "process_result_st p self st code data = (res, st')"
  shows "extends st st'"
proof -
  obtain reps st1 where al: "alloc st (ListObj []) = (reps, st1)"
    by (cases "alloc st (ListObj [])")
  from alloc_extends [OF al] have ext1: "extends st st1" and reps: "next_free st \<le> reps"
    by simp_all
  show ?thesis
  proof (cases "cell st1 data")
    case (DictObj items)
    obtain res2 st2 where loop: "reports_loop_st p self st1 reps items = (res2, st2)"
      by (cases "reports_loop_st p self st1 reps items")
    from reports_loop_st_fresh [OF reps ext1 loop] have ext2: "extends st st2" .
    show ?thesis
    proof (cases res2)
      case (Inl e)
      with assms al DictObj loop ext2 show ?thesis by (simp add: process_result_st_def)
    next
      case (Inr u)
      obtain result st3 where al3: "alloc st2 (DetectionResultObj code reps data) = (result, st3)"
        by (cases "alloc st2 (DetectionResultObj code reps data)")
      from alloc_extends [OF al3] ext2 have "extends st st3" by (auto intro: extends_trans)
      with assms al DictObj loop Inr al3 show ?thesis by (simp add: process_result_st_def)
    qed
  qed (use assms al ext1 in \<open>auto simp: process_result_st_def\<close>)
qed

subsection \<open>Writing into a list changes no view of anything else\<close>

lemma list_write_field:
  assumes "cell st l = ListObj xs"
  shows "view_field (st\<lparr>cell := (cell st)(l := ListObj ys)\<rparr>) s = view_field st s"
proof (cases s)
  case (Val v)
  then show ?thesis by simp
next
  case (Ref a)
  with assms show ?thesis by (cases "a = l") simp_all
qed

lemma list_write_similarity:
  assumes "cell st l = ListObj xs"
  shows "view_similarity (st\<lparr>cell := (cell st)(l := ListObj ys)\<rparr>) a = view_similarity st a"
proof -
  define st' where "st' = st\<lparr>cell := (cell st)(l := ListObj ys)\<rparr>"
  have c: "cell st' a = (if a = l then ListObj ys else cell st a)" for a
    by (simp add: st'_def)
  have slot: "view_field st' = view_field st"
    unfolding st'_def by (rule ext) (rule list_write_field [OF assms])
  have "view_similarity_obj st' ob = view_similarity_obj st ob" for ob
    by (cases ob) (simp_all add: slot)
  with assms have "view_similarity st' a = view_similarity st a"
    by (cases "a = l") (simp_all add: view_similarity_def c)
  then show ?thesis by (simp add: st'_def)
qed

lemma list_write_report:
  assumes "cell st l = ListObj xs" and "cell st a = SimilarityReportObj fp sims loc"
    and "sims \<noteq> l"
  shows "view_report (st\<lparr>cell := (cell st)(l := ListObj ys)\<rparr>) a = view_report st a"
proof -
  define st' where "st' = st\<lparr>cell := (cell st)(l := ListObj ys)\<rparr>"
  have c: "cell st' b = (if b = l then ListObj ys else cell st b)" for b
    by (simp add: st'_def)
  have slot: "view_field st' = view_field st"
    unfolding st'_def by (rule ext) (rule list_write_field [OF assms(1)])
  have sim: "view_similarity st' = view_similarity st"
    unfolding st'_def by (rule ext) (rule list_write_similarity [OF assms(1)])
  have "a \<noteq> l" using assms(1,2) by auto
  then have ca: "cell st' a = SimilarityReportObj fp sims loc"
    using assms(2) by (simp add: c)
  have "view_similarities st' sims = view_similarities st sims"
    using assms(3) by (simp add: view_similarities_def c sim split: obj.splits)
  with ca assms(2) have "view_report st' a = view_report st a"
    by (simp add: view_report_def slot)
  then show ?thesis by (simp add: st'_def)
qed

lemma list_write_ok:
  assumes "store_ok st" and "cell st l = ListObj xs"
  shows "store_ok (st\<lparr>cell := (cell st)(l := ListObj ys)\<rparr>)"
  using assms by (auto simp: store_ok_def)

subsection \<open>Facts about the views of items\<close>

lemma those_snoc:
  assumes "those (map f xs) = Some ys" and "f x = Some y"
  shows "those (map f (xs @ [x])) = Some (ys @ [y])"
  using assms by (induction xs arbitrary: ys) (auto split: option.splits)

lemma those_length: "those (map f xs) = Some ys \<Longrightarrow> length ys = length xs"
  by (induction xs arbitrary: ys) (auto split: option.splits)

lemma view_items_Nil: "view_items f [] = Some []"
  by (simp add: view_items_def)

lemma view_items_Cons:
  "view_items f ((k, s) # rest) = Some vs \<longleftrightarrow>
     (\<exists>v vrest. f s = Some v \<and> view_items f rest = Some vrest \<and> vs = (k, v) # vrest)"
  by (auto simp: view_items_def split: option.splits)

lemma view_items_map_of_None:
  "view_items f items = Some vs \<Longrightarrow> map_of items k = None \<Longrightarrow> map_of vs k = None"
proof (induction items arbitrary: vs)
  case Nil
  then show ?case by (simp add: view_items_def)
next
  case (Cons item rest)
  obtain k' s where item: "item = (k', s)" by (cases item)
  from Cons.prems(1) item obtain v vrest where "view_items f rest = Some vrest"
    and "vs = (k', v) # vrest"
    by (auto simp: view_items_Cons)
  with Cons.IH [of vrest] Cons.prems(2) item show ?case
    by (auto split: if_splits)
qed

lemma view_items_map_of_Some:
  "view_items f items = Some vs \<Longrightarrow> map_of items k = Some s \<Longrightarrow>
   \<exists>v. f s = Some v \<and> map_of vs k = Some v"
proof (induction items arbitrary: vs)
  case Nil
  then show ?case by simp
next
  case (Cons item rest)
  obtain k' s' where item: "item = (k', s')" by (cases item)
  from Cons.prems(1) item obtain v vrest where v: "f s' = Some v"
    and rest: "view_items f rest = Some vrest" and vs: "vs = (k', v) # vrest"
    by (auto simp: view_items_Cons)
  show ?case
  proof (cases "k' = k")
    case True
    with Cons.prems(2) item v vs show ?thesis by simp
  next
    case False
    with Cons.prems(2) item have "map_of rest k = Some s" by simp
    from Cons.IH [OF rest this] False vs show ?thesis by simp
  qed
qed

lemma view_items_filter:
  "view_items f items = Some vs \<Longrightarrow>
   view_items f (filter (\<lambda>(k, s). P k) items) = Some (filter (\<lambda>(k, v). P k) vs)"
proof (induction items arbitrary: vs)
  case Nil
  then show ?case by (simp add: view_items_def)
next
  case (Cons item rest)
  obtain k s where item: "item = (k, s)" by (cases item)
  from Cons.prems item obtain v vrest where v: "f s = Some v"
    and rest: "view_items f rest = Some vrest" and vs: "vs = (k, v) # vrest"
    by (auto simp: view_items_Cons)
  from Cons.IH [OF rest] item v vs show ?case
    by (simp add: view_items_Cons)
qed

lemma view_leaf_Val:
  assumes "view_leaf s = Some v"
  shows "s = Val v" and "view_field st s = Some v"
proof -
  from assms show s: "s = Val v"
    by (cases s; cases v) (auto elim: view_atom.elims)
  from assms s show "view_field st s = Some v" by simp
qed

lemma slot_get_view:
  assumes "view_items (view_leaf) sd = Some vsd" and "view_atom dflt = Some dflt"
  shows "view_field st (slot_get sd k (Val dflt)) = Some (dict_get vsd k dflt)"
proof (cases "map_of sd k")
  case None
  with view_items_map_of_None [OF assms(1) None] assms(2) show ?thesis
    by (simp add: slot_get_def dict_get_def)
next
  case (Some s)
  from view_items_map_of_Some [OF assms(1) Some] obtain v where
    v: "view_leaf s = Some v" and m: "map_of vsd k = Some v"
    by blast
  from view_leaf_Val(2) [OF v, of st] Some m show ?thesis
    by (simp add: slot_get_def dict_get_def)
qed

lemma slot_ge_view:
  assumes "view_field st s = Some v"
  shows "slot_ge s t = py_ge v t"
proof (cases s)
  case (Val w)
  with assms have "v = w" by (cases w) simp_all
  with Val show ?thesis by simp
next
  case (Ref a)
  with assms obtain d where "v = PDict d" by (auto split: obj.splits)
  with Ref show ?thesis by simp
qed

subsection \<open>The loops on the store compute what the loops on values compute\<close>

lemma make_similarity_st_refines:
  assumes "cell st report = SimilarityReportObj fp sims loc"
    and "view_field st loc = Some (loc_count r)" and "view_field st s = Some v"
  shows "case make_similarity p path r target v of
           Inl e \<Rightarrow> make_similarity_st p st path report target s = Inl e
         | Inr sim \<Rightarrow>
             (\<exists>made. make_similarity_st p st path report target s = Inr made \<and>
                view_similarity_obj st made = Some sim)"
proof (cases s)
  case (Val w)
  with assms(3) have vw: "v = w" and atom: "view_atom w = Some w"
    by (cases w; simp)+
  have val_eq: "make_similarity p path r target w =
      (case py_float p w of
         Inl e \<Rightarrow> Inl e
       | Inr x \<Rightarrow> Inr \<lparr>source_file = path, target_file = target,
             similarity_percentage = PFloat x, source_loc = loc_count r, target_loc = PNone\<rparr>)"
    using atom by (cases w) simp_all
  show ?thesis
  proof (cases "py_float p w")
    case (Inl e)
    with val_eq Val vw show ?thesis
      by (simp add: make_similarity_st_def)
  next
    case (Inr x)
    with val_eq Val vw assms(1,2) show ?thesis
      by (simp add: make_similarity_st_def)
  qed
next
  case (Ref a)
  with assms(3) obtain sd vsd where c: "cell st a = DictObj sd"
    and vsd: "view_items (view_leaf) sd = Some vsd" and v: "v = PDict vsd"
    by (auto split: obj.splits)
  have "view_field st (slot_get sd ''Similarity'' (Val (PFloat 0))) =
      Some (dict_get vsd ''Similarity'' (PFloat 0))"
    by (rule slot_get_view [OF vsd]) simp
  moreover have "view_field st (slot_get sd ''#LoC'' (Val PNone)) =
      Some (dict_get vsd ''#LoC'' PNone)"
    by (rule slot_get_view [OF vsd]) simp
  ultimately show ?thesis
    using Ref c v assms(1,2) by (simp add: make_similarity_st_def)
qed

lemma similarities_loop_st_refines:
  assumes "store_ok st" and "cell st report = SimilarityReportObj fp sims loc"
    and "view_report st report = Some r"
    and "view_items (view_field st) items = Some vitems"
  shows "case similarities_loop p path r vitems of
           Inl e \<Rightarrow> fst (similarities_loop_st p st path report items) = Inl e
         | Inr r' \<Rightarrow>
             (\<exists>st'. similarities_loop_st p st path report items = (Inr (), st') \<and>
                store_ok st' \<and> view_report st' report = Some r' \<and>
                cell st' report = SimilarityReportObj fp sims loc)"
  using assms
proof (induction items arbitrary: st r vitems)
  case Nil
  then show ?case by (simp add: view_items_def)
next
  case (Cons item rest)
  obtain target s where item: "item = (target, s)" by (cases item)
  from Cons.prems(4) item obtain v vrest where v: "view_field st s = Some v"
    and rest: "view_items (view_field st) rest = Some vrest"
    and vitems: "vitems = (target, v) # vrest"
    by (auto simp: view_items_Cons)
  from Cons.prems(2,3) obtain xs where ss: "cell st sims = ListObj xs"
    and xs: "those (map (view_similarity st) xs) = Some (similarities r)"
    and lv: "view_field st loc = Some (loc_count r)" and fp: "file_path r = fp"
    by (auto simp: view_report_def view_similarities_def split: obj.splits option.splits)
  note ms = make_similarity_st_refines [OF Cons.prems(2) lv v, of p path target]
  show ?case
  proof (cases "make_similarity p path r target v")
    case (Inl e)
    with ms item vitems show ?thesis by simp
  next
    case (Inr sim)
    with ms obtain made where made: "make_similarity_st p st path report target s = Inr made"
      and mv: "view_similarity_obj st made = Some sim"
      by auto
    define x where "x = next_free st"
    define st1 where "st1 = snd (alloc st made)"
    have al: "alloc st made = (x, st1)"
      by (simp add: alloc_def x_def st1_def)
    from alloc_extends [OF al] have grow: "extends st st1" by simp
    have ok1: "store_ok st1" by (rule alloc_store_ok [OF Cons.prems(1) al])
    have rep1: "cell st1 report = SimilarityReportObj fp sims loc"
      using cell_kept [OF Cons.prems(1) grow, of report] Cons.prems(2) by simp
    have ss1: "cell st1 sims = ListObj xs"
      using cell_kept [OF Cons.prems(1) grow, of sims] ss by simp
    have x1: "cell st1 x = made"
      by (simp add: st1_def x_def alloc_def)
    have xv: "view_similarity st1 x = Some sim"
      using view_similarity_obj_kept [OF Cons.prems(1) grow mv] x1
      by (simp add: view_similarity_def)
    have xs1: "those (map (view_similarity st1) xs) = Some (similarities r)"
      using xs by (rule those_map_cong) (rule view_similarity_kept [OF Cons.prems(1) grow])
    define st2 where "st2 = st1\<lparr>cell := (cell st1)(sims := ListObj (xs @ [x]))\<rparr>"
    have app: "add_similarity_st st1 report x = (Inr (), st2)"
      using rep1 ss1 by (simp add: add_similarity_st_def list_append_def st2_def)
    have ok2: "store_ok st2"
      unfolding st2_def by (rule list_write_ok [OF ok1 ss1])
    have ne: "sims \<noteq> report" using rep1 ss1 by auto
    have rep2: "cell st2 report = SimilarityReportObj fp sims loc"
      using rep1 ne by (simp add: st2_def)
    have sim2: "view_similarity st2 = view_similarity st1"
      unfolding st2_def by (rule ext) (rule list_write_similarity [OF ss1])
    have slot2: "view_field st2 = view_field st1"
      unfolding st2_def by (rule ext) (rule list_write_field [OF ss1])
    have snoc: "those (map (view_similarity st1) (xs @ [x])) = Some (similarities r @ [sim])"
      by (rule those_snoc [OF xs1 xv])
    have "cell st2 sims = ListObj (xs @ [x])"
      by (simp add: st2_def)
    then have ss2: "view_similarities st2 sims = Some (similarities r @ [sim])"
      using snoc by (simp only: view_similarities_def sim2 obj.case)
    have lv2: "view_field st2 loc = Some (loc_count r)"
      using view_field_kept [OF Cons.prems(1) grow lv] by (simp add: slot2)
    have vr2: "view_report st2 report = Some (add_similarity r sim)"
      using rep2 ss2 lv2 fp by (simp add: view_report_def add_similarity_def)
    have "view_items (view_field st1) rest = Some vrest"
      using rest by (rule view_items_cong) (rule view_field_kept [OF Cons.prems(1) grow])
    then have rest2: "view_items (view_field st2) rest = Some vrest"
      by (simp add: slot2)
    have st_step: "similarities_loop_st p st path report (item # rest) =
        similarities_loop_st p st2 path report rest"
      using item made al app by simp
    have step: "similarities_loop p path r vitems =
        similarities_loop p path (add_similarity r sim) vrest"
      using vitems Inr by simp
    from Cons.IH [OF ok2 rep2 vr2 rest2] show ?thesis
      unfolding st_step step .
  qed
qed

lemma process_file_st_refines:
  assumes "store_ok st" and "view_entry st entry = Some ventry"
  shows "case process_file p self path ventry of
           Inl e \<Rightarrow> fst (process_file_st p self st path entry) = Inl e
         | Inr r \<Rightarrow>
             (\<exists>st' loc. process_file_st p self st path entry = (Inr (Suc (next_free st)), st') \<and>
                store_ok st' \<and> view_report st' (Suc (next_free st)) = Some r \<and>
                cell st' (Suc (next_free st)) = SimilarityReportObj path (next_free st) loc)"
proof -
  define sims where "sims = next_free st"
  define report where "report = Suc (next_free st)"
  define st1 where "st1 = snd (alloc st (ListObj []))"
  define st2 where "st2 = snd (alloc st1 (SimilarityReportObj path sims (Val PNone)))"
  have al1: "alloc st (ListObj []) = (sims, st1)"
    by (simp add: alloc_def sims_def st1_def)
  have al2: "alloc st1 (SimilarityReportObj path sims (Val PNone)) = (report, st2)"
    by (simp add: alloc_def report_def st1_def st2_def)
  have ok2: "store_ok st2"
    by (rule alloc_store_ok [OF alloc_store_ok [OF assms(1) al1] al2])
  have grow2: "extends st st2"
    using alloc_extends [OF al1] alloc_extends [OF al2] by (auto intro: extends_trans)
  have rep2: "cell st2 report = SimilarityReportObj path sims (Val PNone)"
    and sims2: "cell st2 sims = ListObj []"
    by (simp_all add: st2_def st1_def alloc_def report_def sims_def)
  show ?thesis
  proof (cases entry)
    case (Val w)
    with assms(2) have vw: "ventry = w" and atom: "view_atom w = Some w"
      by (cases w; simp)+
    from atom have "process_file p self path w = Inl AttributeError"
      by (cases w) (simp_all add: process_file_def)
    moreover have "process_file_st p self st path entry = (Inl AttributeError, st2)"
      using al1 al2 Val by (simp add: process_file_st_def)
    ultimately show ?thesis using vw by simp
  next
    case (Ref a)
    with assms(2) obtain items vitems where ca: "cell st a = DictObj items"
      and vi: "view_items (view_field st) items = Some vitems" and ve: "ventry = PDict vitems"
      by (auto split: obj.splits)
    have ca2: "cell st2 a = DictObj items"
      using cell_kept [OF assms(1) grow2, of a] ca by simp
    then have di: "dict_items st2 entry = Some items"
      using Ref by simp
    let ?drop = "filter (\<lambda>(k, v). k \<noteq> ''#LoC'')"
    have "\<exists>looped st3 r0 vlooped loc.
        extract_loc_st (show_loc self) st2 report items = (looped, st3) \<and>
        store_ok st3 \<and> cell st3 report = SimilarityReportObj path sims loc \<and>
        view_report st3 report = Some r0 \<and>
        view_items (view_field st3) looped = Some vlooped \<and>
        process_file p self path ventry = similarities_loop p path r0 vlooped"
    proof (cases "if show_loc self then map_of items ''#LoC'' else None")
      case None
      then have vnone: "(if show_loc self then map_of vitems ''#LoC'' else None) = None"
        using view_items_map_of_None [OF vi] by (auto split: if_splits)
      have ex: "extract_loc_st (show_loc self) st2 report items = (items, st2)"
        using None by (simp add: extract_loc_st_def)
      have vr: "view_report st2 report =
          Some \<lparr>file_path = path, similarities = [], loc_count = PNone\<rparr>"
        using rep2 sims2 by (simp add: view_report_def view_similarities_def)
      have vi2: "view_items (view_field st2) items = Some vitems"
        using vi by (rule view_items_cong) (rule view_field_kept [OF assms(1) grow2])
      have "process_file p self path ventry =
          similarities_loop p path \<lparr>file_path = path, similarities = [], loc_count = PNone\<rparr> vitems"
        using vnone ve by (simp add: process_file_def)
      with ex ok2 rep2 vr vi2 show ?thesis by blast
    next
      case (Some loc)
      then have enabled: "show_loc self" and mo: "map_of items ''#LoC'' = Some loc"
        by (auto split: if_splits)
      from view_items_map_of_Some [OF vi mo] obtain lv where
        lv: "view_field st loc = Some lv" and vmo: "map_of vitems ''#LoC'' = Some lv"
        by blast
      define st3 where "st3 = snd (alloc (set_loc_count st2 report loc) (DictObj (?drop items)))"
      have ex: "extract_loc_st (show_loc self) st2 report items = (?drop items, st3)"
        using Some by (simp add: extract_loc_st_def st3_def split: prod.splits)
      have ok3: "store_ok st3"
        using ok2 rep2
        by (auto simp: st3_def set_loc_count_def alloc_def store_ok_def st2_def st1_def report_def)
      have grow3: "extends st st3"
        using grow2 rep2
        by (auto simp: st3_def set_loc_count_def alloc_def extends_def report_def st2_def st1_def)
      have rep3: "cell st3 report = SimilarityReportObj path sims loc"
        and sims3: "cell st3 sims = ListObj []"
        by (simp_all add: st3_def set_loc_count_def alloc_def st2_def st1_def report_def sims_def)
      have lv3: "view_field st3 loc = Some lv"
        by (rule view_field_kept [OF assms(1) grow3 lv])
      have vr: "view_report st3 report =
          Some \<lparr>file_path = path, similarities = [], loc_count = lv\<rparr>"
        using rep3 sims3 lv3 by (simp add: view_report_def view_similarities_def)
      have "view_items (view_field st) (?drop items) = Some (?drop vitems)"
        by (rule view_items_filter [OF vi])
      then have vi3: "view_items (view_field st3) (?drop items) = Some (?drop vitems)"
        by (rule view_items_cong) (rule view_field_kept [OF assms(1) grow3])
      have "process_file p self path ventry =
          similarities_loop p path \<lparr>file_path = path, similarities = [], loc_count = lv\<rparr>
            (?drop vitems)"
        using enabled vmo ve by (simp add: process_file_def)
      with ex ok3 rep3 vr vi3 show ?thesis by blast
    qed
    then obtain looped st3 r0 vlooped loc where
      ex: "extract_loc_st (show_loc self) st2 report items = (looped, st3)"
      and ok3: "store_ok st3" and rep3: "cell st3 report = SimilarityReportObj path sims loc"
      and vr3: "view_report st3 report = Some r0"
      and vl3: "view_items (view_field st3) looped = Some vlooped"
      and val_eq: "process_file p self path ventry = similarities_loop p path r0 vlooped"
      by blast
    have st_eq: "process_file_st p self st path entry =
        (case similarities_loop_st p st3 path report looped of
           (Inl e, st4) \<Rightarrow> (Inl e, st4)
         | (Inr u, st4) \<Rightarrow> (Inr report, st4))"
      using al1 al2 di ex by (simp add: process_file_st_def)
    note loop = similarities_loop_st_refines [OF ok3 rep3 vr3 vl3, of p path]
    show ?thesis
    proof (cases "similarities_loop p path r0 vlooped")
      case (Inl e)
      with loop have "fst (similarities_loop_st p st3 path report looped) = Inl e" by simp
      then have "fst (process_file_st p self st path entry) = Inl e"
        unfolding st_eq by (cases "similarities_loop_st p st3 path report looped") simp
      with Inl val_eq show ?thesis by simp
    next
      case (Inr r)
      with loop obtain st4 where run: "similarities_loop_st p st3 path report looped = (Inr (), st4)"
        and ok4: "store_ok st4" and vr4: "view_report st4 report = Some r"
        and rep4: "cell st4 report = SimilarityReportObj path sims loc"
        by auto
      from run have "process_file_st p self st path entry = (Inr report, st4)"
        unfolding st_eq by simp
      with ok4 vr4 rep4 Inr val_eq show ?thesis
        by (auto simp: report_def sims_def)
    qed
  qed
qed

lemma has_similarities_st_view:
  assumes "view_report st rep = Some r"
  shows "has_similarities_st st rep = Inr (similarities r \<noteq> [])"
proof -
  from assms obtain path sims loc xs where c: "cell st rep = SimilarityReportObj path sims loc"
    and l: "cell st sims = ListObj xs"
    and xs: "those (map (view_similarity st) xs) = Some (similarities r)"
    by (auto simp: view_report_def view_similarities_def split: obj.splits option.splits)
  from those_length [OF xs] have "(xs \<noteq> []) = (similarities r \<noteq> [])" by auto
  with c l show ?thesis by (simp add: has_similarities_st_def)
qed

lemma reports_loop_st_refines:
  assumes "store_ok st0" and "next_free st0 \<le> reps"
    and "view_items (view_entry st0) items = Some ventries"
    and "extends st0 st" and "store_ok st" and "cell st reps = ListObj rs"
    and "those (map (view_report st) rs) = Some acc"
    and "\<forall>a\<in>set rs. \<forall>fp sims loc. cell st a = SimilarityReportObj fp sims loc \<longrightarrow> sims \<noteq> reps"
  shows "case reports_loop p self acc ventries of
           Inl e \<Rightarrow> fst (reports_loop_st p self st reps items) = Inl e
         | Inr built \<Rightarrow>
             (\<exists>st' rs'. reports_loop_st p self st reps items = (Inr (), st') \<and>
                store_ok st' \<and> cell st' reps = ListObj rs' \<and>
                those (map (view_report st') rs') = Some built)"
  using assms(3-8)
proof (induction items arbitrary: st rs acc ventries)
  case Nil
  then show ?case by (simp add: view_items_def)
next
  case (Cons item rest)
  obtain path entry where item: "item = (path, entry)" by (cases item)
  from Cons.prems(1) item obtain ventry vrest where ve0: "view_entry st0 entry = Some ventry"
    and rest: "view_items (view_entry st0) rest = Some vrest"
    and ventries: "ventries = (path, ventry) # vrest"
    by (auto simp: view_items_Cons)
  from view_entry_kept [OF assms(1) Cons.prems(2) ve0] have ve: "view_entry st entry = Some ventry" .
  note turn = process_file_st_refines [OF Cons.prems(3) ve, of p self path]
  show ?case
  proof (cases "process_file p self path ventry")
    case (Inl e)
    with turn have "fst (process_file_st p self st path entry) = Inl e" by simp
    then have "fst (reports_loop_st p self st reps (item # rest)) = Inl e"
      using item by (cases "process_file_st p self st path entry") simp
    with Inl ventries show ?thesis by simp
  next
    case (Inr r)
    define report where "report = Suc (next_free st)"
    from turn Inr obtain st1 loc where
      run: "process_file_st p self st path entry = (Inr report, st1)"
      and ok1: "store_ok st1" and vr1: "view_report st1 report = Some r"
      and rep1: "cell st1 report = SimilarityReportObj path (next_free st) loc"
      by (auto simp: report_def)
    from process_file_st_extends [OF run] have grow: "extends st st1" .
    from extends_trans [OF Cons.prems(2) grow] have grow01: "extends st0 st1" .
    have reps1: "cell st1 reps = ListObj rs"
      using cell_kept [OF Cons.prems(3) grow, of reps] Cons.prems(4) by simp
    have acc1: "those (map (view_report st1) rs) = Some acc"
      using Cons.prems(5) by (rule those_map_cong) (rule view_report_kept [OF Cons.prems(3) grow])
    have cells1: "cell st1 a = cell st a" if "a \<in> set rs" for a
    proof -
      from Cons.prems(5) that have "view_report st a \<noteq> None"
        by (induction rs arbitrary: acc) (auto split: option.splits)
      then have "cell st a \<noteq> NoObject" by (auto simp: view_report_def)
      from cell_kept [OF Cons.prems(3) grow this] show ?thesis .
    qed
    have sep1: "\<forall>a\<in>set rs. \<forall>fp sims loc. cell st1 a = SimilarityReportObj fp sims loc \<longrightarrow> sims \<noteq> reps"
      using Cons.prems(6) cells1 by simp
    have "reps < next_free st"
      using Cons.prems(3,4) by (auto simp: store_ok_def not_le [symmetric])
    then have fresh: "next_free st \<noteq> reps" by simp
    have has: "has_similarities_st st1 report = Inr (similarities r \<noteq> [])"
      by (rule has_similarities_st_view [OF vr1])
    show ?thesis
    proof (cases "similarities r = []")
      case True
      have st_step: "reports_loop_st p self st reps (item # rest) =
          reports_loop_st p self st1 reps rest"
        using item run has True by simp
      have step: "reports_loop p self acc ventries = reports_loop p self acc vrest"
        using ventries Inr True by simp
      from Cons.IH [OF rest grow01 ok1 reps1 acc1 sep1] show ?thesis
        unfolding st_step step .
    next
      case False
      define st2 where "st2 = st1\<lparr>cell := (cell st1)(reps := ListObj (rs @ [report]))\<rparr>"
      have app: "list_append st1 reps report = (Inr (), st2)"
        using reps1 by (simp add: list_append_def st2_def)
      have ok2: "store_ok st2"
        unfolding st2_def by (rule list_write_ok [OF ok1 reps1])
      from list_append_fresh [OF assms(2) grow01 app] have grow02: "extends st0 st2" .
      have reps2: "cell st2 reps = ListObj (rs @ [report])"
        by (simp add: st2_def)
      have vr2: "view_report st2 report = Some r"
        unfolding st2_def using list_write_report [OF reps1 rep1 fresh] vr1 by simp
      have old2: "view_report st2 a = view_report st1 a" if "a \<in> set rs" for a
      proof -
        from acc1 that have "view_report st1 a \<noteq> None"
          by (induction rs arbitrary: acc) (auto split: option.splits)
        then obtain fp sims loc' where c: "cell st1 a = SimilarityReportObj fp sims loc'"
          by (auto simp: view_report_def split: obj.splits)
        with sep1 that have "sims \<noteq> reps" by blast
        from list_write_report [OF reps1 c this] show ?thesis by (simp add: st2_def)
      qed
      have "those (map (view_report st2) rs) = Some acc"
        using acc1 old2 by (simp cong: map_cong)
      then have acc2: "those (map (view_report st2) (rs @ [report])) = Some (acc @ [r])"
        using vr2 by (rule those_snoc)
      have sep2: "\<forall>a\<in>set (rs @ [report]). \<forall>fp sims loc.
          cell st2 a = SimilarityReportObj fp sims loc \<longrightarrow> sims \<noteq> reps"
      proof (intro ballI allI impI)
        fix a fp sims loc'
        assume a: "a \<in> set (rs @ [report])" and c2: "cell st2 a = SimilarityReportObj fp sims loc'"
        from c2 reps2 have "a \<noteq> reps" by auto
        with c2 have c1: "cell st1 a = SimilarityReportObj fp sims loc'" by (simp add: st2_def)
        show "sims \<noteq> reps"
        proof (cases "a = report")
          case True
          with c1 rep1 fresh show ?thesis by simp
        next
          case False
          with a have "a \<in> set rs" by simp
          with sep1 c1 show ?thesis by blast
        qed
      qed
      have st_step: "reports_loop_st p self st reps (item # rest) =
          reports_loop_st p self st2 reps rest"
        using item run has False app by simp
      have step: "reports_loop p self acc ventries = reports_loop p self (acc @ [r]) vrest"
        using ventries Inr False by simp
      from Cons.IH [OF rest grow02 ok2 reps2 acc2 sep2] show ?thesis
        unfolding st_step step .
    qed
  qed
qed

lemma process_result_st_refines:
  assumes "store_ok st" and "view_raw st data = Some d"
  shows "case process_result p self code d of
           Inl e \<Rightarrow> fst (process_result_st p self st code data) = Inl e
         | Inr r \<Rightarrow>
             (\<exists>st' reps. process_result_st p self st code data = (Inr (next_free st'  - 1), st') \<and>
                store_ok st' \<and> view_result st' (next_free st' - 1) = Some r \<and>
                cell st' (next_free st' - 1) = DetectionResultObj code reps data)"
proof -
  from assms(2) obtain items where cd: "cell st data = DictObj items"
    and vi: "view_items (view_entry st) items = Some d"
    by (auto simp: view_raw_def split: obj.splits)
  define reps where "reps = next_free st"
  define st1 where "st1 = snd (alloc st (ListObj []))"
  have al: "alloc st (ListObj []) = (reps, st1)"
    by (simp add: alloc_def reps_def st1_def)
  from alloc_extends [OF al] have grow1: "extends st st1" by simp
  have ok1: "store_ok st1" by (rule alloc_store_ok [OF assms(1) al])
  have reps1: "cell st1 reps = ListObj []"
    by (simp add: st1_def reps_def alloc_def)
  have cd1: "cell st1 data = DictObj items"
    using cell_kept [OF assms(1) grow1, of data] cd by simp
  have fresh: "next_free st \<le> reps" by (simp add: reps_def)
  have st_eq: "process_result_st p self st code data =
      (case reports_loop_st p self st1 reps items of
         (Inl e, st2) \<Rightarrow> (Inl e, st2)
       | (Inr u, st2) \<Rightarrow>
           (case alloc st2 (DetectionResultObj code reps data) of
              (result, st3) \<Rightarrow> (Inr result, st3)))"
    using al cd1 by (simp add: process_result_st_def)
  have loop: "case reports_loop p self [] d of
           Inl e \<Rightarrow> fst (reports_loop_st p self st1 reps items) = Inl e
         | Inr built \<Rightarrow>
             (\<exists>st' rs'. reports_loop_st p self st1 reps items = (Inr (), st') \<and>
                store_ok st' \<and> cell st' reps = ListObj rs' \<and>
                those (map (view_report st') rs') = Some built)"
    by (rule reports_loop_st_refines [OF assms(1) fresh vi grow1 ok1 reps1]) simp_all
  show ?thesis
  proof (cases "reports_loop p self [] d")
    case (Inl e)
    with loop have "fst (reports_loop_st p self st1 reps items) = Inl e" by simp
    then have "fst (process_result_st p self st code data) = Inl e"
      unfolding st_eq by (cases "reports_loop_st p self st1 reps items") simp
    with Inl show ?thesis by (simp add: process_result_def)
  next
    case (Inr built)
    with loop obtain st2 rs' where run: "reports_loop_st p self st1 reps items = (Inr (), st2)"
      and ok2: "store_ok st2" and reps2: "cell st2 reps = ListObj rs'"
      and built: "those (map (view_report st2) rs') = Some built"
      by auto
    from reports_loop_st_fresh [OF fresh grow1 run] have grow2: "extends st st2" .
    define st3 where "st3 = snd (alloc st2 (DetectionResultObj code reps data))"
    have al3: "alloc st2 (DetectionResultObj code reps data) = (next_free st2, st3)"
      by (simp add: alloc_def st3_def)
    from alloc_extends [OF al3] have grow23: "extends st2 st3" by simp
    have ok3: "store_ok st3" by (rule alloc_store_ok [OF ok2 al3])
    have nf3: "next_free st3 - 1 = next_free st2"
      by (simp add: st3_def alloc_def)
    have res3: "cell st3 (next_free st2) = DetectionResultObj code reps data"
      by (simp add: st3_def alloc_def)
    have reps3: "cell st3 reps = ListObj rs'"
      using cell_kept [OF ok2 grow23, of reps] reps2 by simp
    have built3: "those (map (view_report st3) rs') = Some built"
      using built by (rule those_map_cong) (rule view_report_kept [OF ok2 grow23])
    have raw3: "view_raw st3 data = Some d"
      by (rule view_raw_kept [OF assms(1) extends_trans [OF grow2 grow23] assms(2)])
    have view3: "view_result st3 (next_free st2) =
        Some \<lparr>return_code = code, reports = built, raw_data = d\<rparr>"
      using res3 reps3 built3 raw3 by (simp add: view_result_def)
    have "process_result_st p self st code data = (Inr (next_free st2), st3)"
      unfolding st_eq using run al3 by simp
    with ok3 view3 res3 nf3 Inr show ?thesis
      by (auto simp: process_result_def)
  qed
qed

subsection \<open>The methods on the store compute what the functions on values compute\<close>

lemma flags_st_refine:
  assumes "view_result st self = Some r"
  shows "is_success_st st self = (Inr (is_success r), st)"
    and "has_duplications_st st self = (Inr (has_duplications r), st)"
proof -
  from assms obtain code reps raw rs built d where cs: "cell st self = DetectionResultObj code reps raw"
    and cr: "cell st reps = ListObj rs"
    and built: "those (map (view_report st) rs) = Some built"
    and r: "r = \<lparr>return_code = code, reports = built, raw_data = d\<rparr>"
    by (auto simp: view_result_def split: obj.splits option.splits)
  from those_length [OF built] have "length built = length rs" .
  with cs cr r show "is_success_st st self = (Inr (is_success r), st)"
    and "has_duplications_st st self = (Inr (has_duplications r), st)"
    by (simp_all add: is_success_st_def has_duplications_st_def is_success_def has_duplications_def)
qed

lemma high_comprehension_st_refines:
  assumes "those (map (view_similarity st) xs) = Some ss"
  shows "case high_comprehension ss t of
           Inl e \<Rightarrow> high_comprehension_st st xs t = Inl e
         | Inr kept \<Rightarrow>
             (\<exists>ks. high_comprehension_st st xs t = Inr ks \<and>
                those (map (view_similarity st) ks) = Some kept)"
  using assms
proof (induction xs arbitrary: ss)
  case Nil
  then show ?case by simp
next
  case (Cons x xs)
  from Cons.prems obtain s rest where s: "view_similarity st x = Some s"
    and rest: "those (map (view_similarity st) xs) = Some rest" and ss: "ss = s # rest"
    by (auto split: option.splits)
  from s obtain src tgt pct sloc tloc where cx: "cell st x = FileSimilarityObj src tgt pct sloc tloc"
    and pct: "view_field st pct = Some (similarity_percentage s)"
    by (cases "cell st x") (auto simp: view_similarity_def split: option.splits)
  from slot_ge_view [OF pct] have ge: "slot_ge pct t = py_ge (similarity_percentage s) t" .
  show ?case
  proof (cases "py_ge (similarity_percentage s) t")
    case (Inl e)
    with cx ss ge show ?thesis by simp
  next
    case (Inr keep)
    show ?thesis
    proof (cases "high_comprehension rest t")
      case (Inl e)
      with Cons.IH [OF rest] \<open>py_ge (similarity_percentage s) t = Inr keep\<close> cx ss ge
      show ?thesis by simp
    next
      case later: (Inr kept)
      with Cons.IH [OF rest] obtain ks where
        ks: "high_comprehension_st st xs t = Inr ks"
        and kv: "those (map (view_similarity st) ks) = Some kept"
        by auto
      with later Inr cx ss s ge show ?thesis by simp
    qed
  qed
qed

lemma get_high_similarities_st_refines:
  assumes "store_ok st" and "view_report st a = Some rep"
  shows "case get_high_similarities rep t of
           Inl e \<Rightarrow> get_high_similarities_st st a t = (Inl e, st)
         | Inr high \<Rightarrow>
             (\<exists>st'. get_high_similarities_st st a t = (Inr (next_free st), st') \<and>
                store_ok st' \<and> view_similarities st' (next_free st) = Some high)"
proof -
  from assms(2) obtain path sims loc ss xs l where ca: "cell st a = SimilarityReportObj path sims loc"
    and cs: "cell st sims = ListObj xs"
    and ss: "those (map (view_similarity st) xs) = Some ss"
    and rep: "rep = \<lparr>file_path = path, similarities = ss, loc_count = l\<rparr>"
    by (auto simp: view_report_def view_similarities_def split: obj.splits option.splits)
  show ?thesis
  proof (cases "high_comprehension ss t")
    case (Inl e)
    with high_comprehension_st_refines [OF ss, of t] ca cs rep show ?thesis
      by (simp add: get_high_similarities_def get_high_similarities_st_def)
  next
    case (Inr high)
    with high_comprehension_st_refines [OF ss, of t] obtain ks where
      ks: "high_comprehension_st st xs t = Inr ks"
      and kv: "those (map (view_similarity st) ks) = Some high"
      by auto
    obtain h st' where al: "alloc st (ListObj ks) = (h, st')"
      by (cases "alloc st (ListObj ks)")
    from alloc_extends [OF al] have grow: "extends st st'" and h: "h = next_free st"
      by simp_all
    from kv have "those (map (view_similarity st') ks) = Some high"
      by (rule those_map_cong) (rule view_similarity_kept [OF assms(1) grow])
    moreover from al have "cell st' h = ListObj ks"
      by (auto simp: alloc_def)
    ultimately have "view_similarities st' h = Some high"
      by (simp add: view_similarities_def)
    with alloc_store_ok [OF assms(1) al] al h ks ca cs rep Inr show ?thesis
      by (simp add: get_high_similarities_def get_high_similarities_st_def)
  qed
qed

lemma append_each_st_refines:
  assumes "store_ok st" and "view_similarities st c = Some acc"
    and "those (map (view_similarity st) hs) = Some high"
  shows "\<exists>st'. append_each_st st c hs = (Inr (), st') \<and> store_ok st' \<and>
     view_similarities st' c = Some (acc @ high)"
  using assms
proof (induction hs arbitrary: st acc high)
  case Nil
  then show ?case by simp
next
  case (Cons x hs)
  from Cons.prems(3) obtain s rest where s: "view_similarity st x = Some s"
    and rest: "those (map (view_similarity st) hs) = Some rest" and high: "high = s # rest"
    by (auto split: option.splits)
  from Cons.prems(2) obtain cs where cc: "cell st c = ListObj cs"
    and cv: "those (map (view_similarity st) cs) = Some acc"
    by (auto simp: view_similarities_def split: obj.splits)
  define st1 where "st1 = st\<lparr>cell := (cell st)(c := ListObj (cs @ [x]))\<rparr>"
  have step: "list_append st c x = (Inr (), st1)"
    using cc by (simp add: list_append_def st1_def)
  have same: "view_similarity st1 = view_similarity st"
    unfolding st1_def by (rule ext) (rule list_write_similarity [OF cc])
  have ok1: "store_ok st1"
    unfolding st1_def by (rule list_write_ok [OF Cons.prems(1) cc])
  have c1: "cell st1 c = ListObj (cs @ [x])"
    by (simp add: st1_def)
  have "those (map (view_similarity st) (cs @ [x])) = Some (acc @ [s])"
    using cv s by (rule those_snoc)
  with c1 have acc1: "view_similarities st1 c = Some (acc @ [s])"
    by (simp only: view_similarities_def same obj.case)
  have rest1: "those (map (view_similarity st1) hs) = Some rest"
    using rest by (simp only: same)
  from Cons.IH [OF ok1 acc1 rest1] step high show ?case by simp
qed

lemma critical_loop_st_refines:
  assumes "store_ok st0" and "extends st0 st" and "store_ok st" and "next_free st0 \<le> c"
    and "those (map (view_report st0) rs) = Some reps"
    and "view_similarities st c = Some acc"
  shows "case critical_loop t reps acc of
           Inl e \<Rightarrow> fst (critical_loop_st st c rs t) = Inl e
         | Inr l \<Rightarrow>
             (\<exists>st'. critical_loop_st st c rs t = (Inr (), st') \<and>
                view_similarities st' c = Some l)"
  using assms(2,3,5,6)
proof (induction rs arbitrary: st reps acc)
  case Nil
  then show ?case by simp
next
  case (Cons a rs)
  from Cons.prems(3) obtain rep rest where rep0: "view_report st0 a = Some rep"
    and rest: "those (map (view_report st0) rs) = Some rest" and reps: "reps = rep # rest"
    by (auto split: option.splits)
  from view_report_kept [OF assms(1) Cons.prems(1) rep0] have rep: "view_report st a = Some rep" .
  show ?case
  proof (cases "get_high_similarities rep t")
    case (Inl e)
    with get_high_similarities_st_refines [OF Cons.prems(2) rep, of t] reps show ?thesis
      by simp
  next
    case (Inr high)
    with get_high_similarities_st_refines [OF Cons.prems(2) rep, of t] obtain st1 where
      run: "get_high_similarities_st st a t = (Inr (next_free st), st1)"
      and ok1: "store_ok st1" and hv: "view_similarities st1 (next_free st) = Some high"
      by auto
    from get_high_similarities_st_extends [OF run] have grow: "extends st st1" .
    from extends_trans [OF Cons.prems(1) grow] have grow1: "extends st0 st1" .
    from hv obtain hs where ch: "cell st1 (next_free st) = ListObj hs"
      and hsv: "those (map (view_similarity st1) hs) = Some high"
      by (auto simp: view_similarities_def split: obj.splits)
    from view_similarities_kept [OF Cons.prems(2) grow Cons.prems(4)]
    have acc1: "view_similarities st1 c = Some acc" .
    from append_each_st_refines [OF ok1 acc1 hsv] obtain st2 where
      app: "append_each_st st1 c hs = (Inr (), st2)" and ok2: "store_ok st2"
      and acc2: "view_similarities st2 c = Some (acc @ high)"
      by blast
    from append_each_st_fresh [OF assms(4) grow1 app] have grow2: "extends st0 st2" .
    have st_step: "critical_loop_st st c (a # rs) t = critical_loop_st st2 c rs t"
      using run ch app by simp
    have step: "critical_loop t reps acc = critical_loop t rest (acc @ high)"
      using reps Inr by (simp add: append_each_eq)
    from Cons.IH [OF grow2 ok2 rest acc2] show ?thesis
      unfolding st_step step .
  qed
qed

lemma get_critical_duplications_st_refines:
  assumes "store_ok st" and "view_result st self = Some r"
  shows "case get_critical_duplications r t of
           Inl e \<Rightarrow> fst (get_critical_duplications_st st self t) = Inl e
         | Inr l \<Rightarrow>
             (\<exists>st'. get_critical_duplications_st st self t = (Inr (next_free st), st') \<and>
                view_similarities st' (next_free st) = Some l)"
proof -
  from assms(2) obtain code reps raw rs built d where cs: "cell st self = DetectionResultObj code reps raw"
    and cr: "cell st reps = ListObj rs"
    and built: "those (map (view_report st) rs) = Some built"
    and r: "r = \<lparr>return_code = code, reports = built, raw_data = d\<rparr>"
    by (auto simp: view_result_def split: obj.splits option.splits)
  obtain c st1 where al: "alloc st (ListObj []) = (c, st1)"
    by (cases "alloc st (ListObj [])")
  from alloc_extends [OF al] have grow: "extends st st1" and c: "c = next_free st"
    by simp_all
  have ok1: "store_ok st1" by (rule alloc_store_ok [OF assms(1) al])
  from al have "view_similarities st1 c = Some []"
    by (auto simp: alloc_def view_similarities_def)
  from critical_loop_st_refines [OF assms(1) grow ok1 _ built this, of t] c
  have loop: "case critical_loop t built [] of
           Inl e \<Rightarrow> fst (critical_loop_st st1 c rs t) = Inl e
         | Inr l \<Rightarrow>
             (\<exists>st'. critical_loop_st st1 c rs t = (Inr (), st') \<and>
                view_similarities st' c = Some l)"
    by simp
  from cell_kept [OF assms(1) grow, of self] cell_kept [OF assms(1) grow, of reps] cs cr
  have cs1: "cell st1 self = DetectionResultObj code reps raw" and cr1: "cell st1 reps = ListObj rs"
    by simp_all
  show ?thesis
  proof (cases "critical_loop t built []")
    case (Inl e)
    with loop have "fst (critical_loop_st st1 c rs t) = Inl e" by simp
    then obtain st2 where "critical_loop_st st1 c rs t = (Inl e, st2)"
      by (cases "critical_loop_st st1 c rs t") simp
    with Inl al cs1 cr1 r show ?thesis
      by (simp add: get_critical_duplications_def get_critical_duplications_st_def)
  next
    case (Inr l)
    with loop obtain st2 where "critical_loop_st st1 c rs t = (Inr (), st2)"
      and "view_similarities st2 c = Some l"
      by auto
    with Inr al cs1 cr1 r c show ?thesis
      by (simp add: get_critical_duplications_def get_critical_duplications_st_def)
  qed
qed

subsection \<open>The sample store\<close>

lemma sample_store_ok: "store_ok sample_store"
  by (simp add: store_ok_def sample_store_def)

lemma sample_store_raw: "view_raw sample_store 12 = Some sample_raw"
  by (simp add: view_raw_def view_items_def sample_store_def sample_objects_def sample_raw_def)

lemma sample_store_view: "view_result sample_store 0 = Some sample_result"
  by (simp add: view_result_def view_report_def view_similarities_def view_similarity_def
      view_raw_def view_items_def
      sample_store_def sample_objects_def sample_result_def sample_reports_def sample_raw_def)

lemma sample_store_run:
  "fst (get_critical_duplications_st sample_store 0 50) = Inr 21 \<and>
   next_free (snd (get_critical_duplications_st sample_store 0 50)) = 25 \<and>
   cell (snd (get_critical_duplications_st sample_store 0 50)) 21 = ListObj [8, 10]"
  by (simp add: get_critical_duplications_st_def get_high_similarities_st_def alloc_def
      list_append_def sample_store_def sample_objects_def)

lemma process_result_code:
  assumes "process_result p self code d = Inr r"
  shows "raw_data r = d" and "return_code r = code"
    and "\<exists>r2. process_result p self code2 d = Inr r2 \<and> reports r2 = reports r \<and> raw_data r2 = d"
  using assms by (auto simp: process_result_def split: sum.splits)

lemma sample_build:
  "fst (process_result_st Map.empty default_detector sample_store SUCCESS 12) = Inr 38 \<and>
   next_free (snd (process_result_st Map.empty default_detector sample_store SUCCESS 12)) = 39 \<and>
   cell (snd (process_result_st Map.empty default_detector sample_store SUCCESS 12)) 38 =
     DetectionResultObj SUCCESS 21 12 \<and>
   cell (snd (process_result_st Map.empty default_detector sample_store SUCCESS 12)) 21 =
     ListObj [23, 28, 35]"
  by (simp add: process_result_st_def process_file_st_def extract_loc_st_def set_loc_count_def
      make_similarity_st_def add_similarity_st_def has_similarities_st_def slot_get_def
      alloc_def list_append_def default_detector_def sample_store_def sample_objects_def)

subsection \<open>The claims\<close>

text \<open>
  Claim C8. For a \<^verbatim>\<open>DetectionResult\<close> in a well-formed store, each of
  \<^verbatim>\<open>is_success()\<close>, \<^verbatim>\<open>has_duplications()\<close>, \<^verbatim>\<open>get_critical_duplications(threshold)\<close>
  and \<^verbatim>\<open>get_high_similarities(threshold)\<close> on any report leaves a store in which the
  \<^verbatim>\<open>DetectionResult\<close> reads as before: the same return code, the same reports with
  the same contents, and the same \<^verbatim>\<open>raw_data\<close>. This holds whether the method returns
  or raises.
\<close>

theorem queries_leave_result_unchanged:
  assumes "store_ok st" and "view_result st self = Some r"
  shows "view_result (snd (is_success_st st self)) self = Some r \<and>
     view_result (snd (has_duplications_st st self)) self = Some r \<and>
     view_result (snd (get_high_similarities_st st report threshold)) self = Some r \<and>
     view_result (snd (get_critical_duplications_st st self threshold)) self = Some r"
proof -
  have "extends st (snd (is_success_st st self))"
    by (auto simp: is_success_st_def extends_refl split: obj.splits)
  moreover have "extends st (snd (has_duplications_st st self))"
    by (auto simp: has_duplications_st_def extends_refl split: obj.splits)
  moreover have "extends st (snd (get_high_similarities_st st report threshold))"
    by (rule get_high_similarities_st_extends) (rule prod.collapse [symmetric])
  moreover have "extends st (snd (get_critical_duplications_st st self threshold))"
    by (rule get_critical_duplications_st_extends) (rule prod.collapse [symmetric])
  ultimately show ?thesis
    using view_result_kept [OF assms(1) _ assms(2)] by blast
qed

theorem queries_leave_result_unchanged_witness:
  "store_ok sample_store \<and> view_result sample_store 0 = Some sample_result \<and>
   view_result (snd (is_success_st sample_store 0)) 0 = Some sample_result \<and>
   view_result (snd (has_duplications_st sample_store 0)) 0 = Some sample_result \<and>
   view_result (snd (get_high_similarities_st sample_store 2 50)) 0 = Some sample_result \<and>
   view_result (snd (get_critical_duplications_st sample_store 0 50)) 0 = Some sample_result \<and>
   fst (get_critical_duplications_st sample_store 0 50) = Inr 21 \<and>
   next_free (snd (get_critical_duplications_st sample_store 0 50)) = 25 \<and>
   cell (snd (get_critical_duplications_st sample_store 0 50)) 21 = ListObj [8, 10]"
  using sample_store_ok sample_store_view sample_store_run
    queries_leave_result_unchanged [OF sample_store_ok sample_store_view, of 2 50]
  by (intro conjI) simp_all

text \<open>
  Claim C5. Let \<open>d\<close> be a dictionary object of a well-formed store that reads as the
  mapping \<open>raw\<close>, and let \<^verbatim>\<open>_process_result(rc, d)\<close> return the object \<open>res\<close>. Then
  the \<^verbatim>\<open>raw_data\<close> of \<open>res\<close> is the object \<open>d\<close> itself; the run has written to no
  object that was there before it, so \<open>d\<close> still reads as \<open>raw\<close>; \<open>res\<close> reads as the
  result that the function on values gives for \<open>raw\<close>; and \<^verbatim>\<open>_process_result\<close> of the
  same detector on that \<^verbatim>\<open>raw_data\<close>, with any return code, returns a result with the
  same reports and the same \<^verbatim>\<open>raw_data\<close>, and leaves the first result as it was.
\<close>

theorem raw_data_round_trip:
  assumes "store_ok st" and "view_raw st d = Some raw"
    and "process_result_st p self st rc d = (Inr res, st')"
  shows "\<exists>reps r.
     cell st' res = DetectionResultObj rc reps d \<and>
     extends st st' \<and> view_raw st' d = Some raw \<and>
     view_result st' res = Some r \<and> raw_data r = raw \<and>
     process_result p self rc raw = Inr r \<and>
     (\<exists>res2 st2 r2.
        process_result_st p self st' rc2 d = (Inr res2, st2) \<and>
        view_result st2 res2 = Some r2 \<and> reports r2 = reports r \<and> raw_data r2 = raw \<and>
        view_result st2 res = Some r)"
proof -
  from process_result_st_extends [OF assms(3)] have grow: "extends st st'" .
  from view_raw_kept [OF assms(1) grow assms(2)] have raw': "view_raw st' d = Some raw" .
  note first = process_result_st_refines [OF assms(1,2), of p self rc]
  obtain r where val_eq: "process_result p self rc raw = Inr r"
    using first assms(3) by (cases "process_result p self rc raw") auto
  with first assms(3) obtain reps where ok': "store_ok st'"
    and view': "view_result st' res = Some r"
    and cell': "cell st' res = DetectionResultObj rc reps d"
    by auto
  from process_result_code(3) [OF val_eq, of rc2] obtain r2 where
    val2: "process_result p self rc2 raw = Inr r2" and same: "reports r2 = reports r"
    and raw2: "raw_data r2 = raw"
    by blast
  from process_result_st_refines [OF ok' raw', of p self rc2] val2 obtain st2 where
    run2: "process_result_st p self st' rc2 d = (Inr (next_free st2 - 1), st2)"
    and view2: "view_result st2 (next_free st2 - 1) = Some r2"
    by auto
  from process_result_st_extends [OF run2] have "extends st' st2" .
  from view_result_kept [OF ok' this view'] have kept: "view_result st2 res = Some r" .
  from cell' grow raw' view' process_result_code(1) [OF val_eq] val_eq run2 view2 same raw2 kept
  show ?thesis by blast
qed

theorem raw_data_round_trip_witness:
  "store_ok sample_store \<and> view_raw sample_store 12 = Some sample_raw \<and>
   fst (process_result_st Map.empty default_detector sample_store SUCCESS 12) = Inr 38 \<and>
   cell (snd (process_result_st Map.empty default_detector sample_store SUCCESS 12)) 38 =
     DetectionResultObj SUCCESS 21 12 \<and>
   extends sample_store
     (snd (process_result_st Map.empty default_detector sample_store SUCCESS 12)) \<and>
   view_raw (snd (process_result_st Map.empty default_detector sample_store SUCCESS 12)) 12 =
     Some sample_raw \<and>
   view_result (snd (process_result_st Map.empty default_detector sample_store SUCCESS 12)) 38 =
     Some sample_result \<and>
   raw_data sample_result = sample_raw \<and>
   (\<exists>res2 st2 r2.
      process_result_st Map.empty default_detector
        (snd (process_result_st Map.empty default_detector sample_store SUCCESS 12))
        (THRESHOLD_EXCEEDED 0) 12 = (Inr res2, st2) \<and>
      view_result st2 res2 = Some r2 \<and> reports r2 = sample_reports \<and>
      raw_data r2 = sample_raw \<and> view_result st2 38 = Some sample_result)"
proof -
  have run: "process_result_st Map.empty default_detector sample_store SUCCESS 12 =
      (Inr 38, snd (process_result_st Map.empty default_detector sample_store SUCCESS 12))"
    using sample_build
    by (cases "process_result_st Map.empty default_detector sample_store SUCCESS 12") simp
  from raw_data_round_trip [OF sample_store_ok sample_store_raw run, of "THRESHOLD_EXCEEDED 0"]
  obtain reps r where
    grow: "extends sample_store
      (snd (process_result_st Map.empty default_detector sample_store SUCCESS 12))"
    and raw': "view_raw (snd (process_result_st Map.empty default_detector sample_store SUCCESS 12))
      12 = Some sample_raw"
    and view': "view_result
      (snd (process_result_st Map.empty default_detector sample_store SUCCESS 12)) 38 = Some r"
    and val_eq: "process_result Map.empty default_detector SUCCESS sample_raw = Inr r"
    and again: "\<exists>res2 st2 r2.
      process_result_st Map.empty default_detector
        (snd (process_result_st Map.empty default_detector sample_store SUCCESS 12))
        (THRESHOLD_EXCEEDED 0) 12 = (Inr res2, st2) \<and>
      view_result st2 res2 = Some r2 \<and> reports r2 = reports r \<and>
      raw_data r2 = sample_raw \<and> view_result st2 38 = Some r"
    by blast
  from val_eq sample_run have r: "r = sample_result" by simp
  have reps: "reports sample_result = sample_reports" and raw: "raw_data sample_result = sample_raw"
    by (simp_all add: sample_result_def)
  from sample_store_ok sample_store_raw sample_build grow raw' view' again raw
  show ?thesis unfolding r reps by (intro conjI) simp_all
qed

end
